theory Spec2Isabelle
  imports Main "HOL-Library.Sublist"
begin

section \<open>Data model\<close>

text \<open>
  The browser \<open>File\<close> objects held in the upload queue of \<open>UploadPage.tsx\<close>: the code
  reads \<open>name\<close>, \<open>size\<close> and \<open>type\<close> (the MIME type); the binary content only travels
  inside the multipart payload.
\<close>

record File =
  f_name :: string
  f_size :: nat
  f_type :: string
  f_content :: string

text \<open>\<open>type DocType = "factura" | "venta"\<close>\<close>

datatype DocType = factura | venta

fun DocType_str :: "DocType \<Rightarrow> string" where
  "DocType_str factura = ''factura''"
| "DocType_str venta = ''venta''"

text \<open>\<open>type UploadStatus\<close> and \<open>type Operacion\<close> (a record of \<open>/api/uploads/historico\<close>).\<close>

datatype UploadStatus = UPLOADED | PROCESSING | PROCESSED | FAILED | DUPLICATED

datatype Tipo = FACTURA | VENTA

record Operacion =
  op_id :: string
  op_fecha :: string
  op_tipo :: Tipo
  op_original_filename :: string
  op_descripcion :: string
  op_tam_bytes :: "nat option"
  op_storage_path :: "string option"
  op_status :: "UploadStatus option"

subsection \<open>Requests and responses\<close>

text \<open>
  A \<open>FormData\<close> body is the list of its appended fields, a JSON body its text.
  \<open>Headers\<close> objects are association lists whose names are kept lower-cased, as the
  Fetch \<open>Headers\<close> class compares header names without regard to case. A \<open>char\<close> is a
  code unit up to \<open>0xFF\<close>; text beyond ASCII in the messages below is written as its
  UTF-8 bytes.
\<close>

datatype form_value = FileValue File | TextValue string

datatype body = FormData "(string \<times> form_value) list" | Json string

type_synonym Headers = "(string \<times> string) list"

record request =
  url :: string
  method_r :: "string option"
  headers :: Headers
  body_r :: "body option"

text \<open>
  A response: its status, and what the promises of \<open>text()\<close> and \<open>json()\<close> settle
  with: the body or the parsed value (\<open>Inr\<close>), or the message of the error they reject
  with (\<open>Inl\<close>).
\<close>

record response =
  status :: nat
  text_r :: "string + string"
  json_r :: "string + string"

text \<open>\<open>Response.ok\<close>: the status is in the range 200 to 299.\<close>

definition ok :: "response \<Rightarrow> bool" where
  "ok r = (200 \<le> status r \<and> status r \<le> 299)"

text \<open>
  What the operator and the remote service can observe, in the order it happens:
  a network call leaving the browser, the promise of an awaited call resolving with a
  response or rejecting with an error message, an exception raised before a call leaves
  or while a response body is read (\<open>Threw\<close>, with its message), an \<open>alert\<close>, the
  \<open>sleep\<close> helper suspending the caller for a number of milliseconds, and the expiry
  callback being invoked.
\<close>

datatype event =
    Fetch request
  | Resolved request response
  | Rejected request string
  | Threw string
  | Alert string
  | Sleep nat
  | OnLogout

text \<open>
  The state of \<open>App\<close> (\<open>token\<close>, \<open>page\<close>, \<open>checkingToken\<close>) and of \<open>UploadPage\<close> (the
  \<open>useState\<close> cells the upload pipeline reads and writes), together with the trace of
  observable events. \<open>App\<close> renders \<open>UploadPage\<close> only while the token is set, no
  token check is running and the page is \<open>upload\<close>; the cells of \<open>UploadPage\<close> are
  on screen only then.
\<close>

record state =
  token :: "string option"
  page :: string
  checkingToken :: bool
  docType :: "DocType option"
  files :: "File list"
  showConfirm :: bool
  uploading :: bool
  uploadingIndex :: "nat option"
  retryingId :: "string option"
  showSuccess :: bool
  ops :: "Operacion list"
  opsError :: "string option"
  trace :: "event list"

definition emit :: "event \<Rightarrow> state \<Rightarrow> state" where
  "emit e s = s\<lparr>trace := trace s @ [e]\<rparr>"

definition alert :: "string \<Rightarrow> state \<Rightarrow> state" where
  "alert msg s = emit (Alert msg) s"

section \<open>Upload queue builder\<close>

text \<open>
  \<open>String.prototype.toLowerCase\<close> on the ASCII letters and \<open>String.prototype.endsWith\<close>.
\<close>

definition toLowerCase_char :: "char \<Rightarrow> char" where
  "toLowerCase_char c =
     (let n = (of_char c :: nat) in if 65 \<le> n \<and> n \<le> 90 then char_of (n + 32) else c)"

definition toLowerCase :: "string \<Rightarrow> string" where
  "toLowerCase s = map toLowerCase_char s"

definition endsWith :: "string \<Rightarrow> string \<Rightarrow> bool" where
  "endsWith s suf =
     (length suf \<le> length s \<and> drop (length s - length suf) s = suf)"

definition ALLOWED_TYPES :: "string list" where
  "ALLOWED_TYPES =
     [''application/pdf'',
      ''application/vnd.openxmlformats-officedocument.spreadsheetml.sheet'']"

definition isAllowed :: "File \<Rightarrow> bool" where
  "isAllowed f =
     (let name = toLowerCase (f_name f)
      in f_type f \<in> set ALLOWED_TYPES
         \<or> endsWith name ''.pdf''
         \<or> endsWith name ''.xlsx'')"

text \<open>The \<open>for (const f of valid)\<close> loop of \<open>addFiles\<close>, pushing onto the copy \<open>dedup\<close>.\<close>

fun dedup_push :: "File list \<Rightarrow> File list \<Rightarrow> File list" where
  "dedup_push dedup [] = dedup"
| "dedup_push dedup (f # valid) =
     (let exists = list_ex (\<lambda>d. f_name d = f_name f \<and> f_size d = f_size f) dedup
      in dedup_push (if \<not> exists then dedup @ [f] else dedup) valid)"

definition ignored_notice :: string where
  "ignored_notice = ''Algunos archivos fueron ignorados (solo PDF o XLSX).''"

definition addFiles :: "File list \<Rightarrow> state \<Rightarrow> state" where
  "addFiles incoming s =
     (let valid = filter isAllowed incoming;
          s1 = (if length valid \<noteq> length incoming then alert ignored_notice s else s);
          dedup = dedup_push (files s) valid
      in s1\<lparr>files := dedup\<rparr>)"

definition removeFile :: "string \<Rightarrow> nat \<Rightarrow> state \<Rightarrow> state" where
  "removeFile name sz s =
     s\<lparr>files := filter (\<lambda>f. \<not> (f_name f = name \<and> f_size f = sz)) (files s)\<rparr>"

definition clearFiles :: "state \<Rightarrow> state" where
  "clearFiles s = s\<lparr>files := []\<rparr>"

text \<open>The deduplication key of a pending file and the queue invariant.\<close>

definition file_key :: "File \<Rightarrow> string \<times> nat" where
  "file_key f = (f_name f, f_size f)"

definition no_duplicates :: "File list \<Rightarrow> bool" where
  "no_duplicates q = distinct (map file_key q)"

section \<open>Credentialed request gateway\<close>

text \<open>
  JavaScript truthiness of a \<open>string | null | undefined\<close> value, as tested by
  \<open>if (token)\<close> and \<open>!token\<close>: absent and the empty string are both falsy.
  \<open>token || undefined\<close> is what the pages pass on to the gateway.
\<close>

definition truthy :: "string option \<Rightarrow> bool" where
  "truthy t = (case t of None \<Rightarrow> False | Some v \<Rightarrow> v \<noteq> [])"

definition or_undefined :: "string option \<Rightarrow> string option" where
  "or_undefined t = (if truthy t then t else None)"

text \<open>
  The \<open>Headers\<close> class of the Fetch standard. A value is normalised by removing leading
  and trailing HTTP whitespace (tab, line feed, carriage return, space). A name must be a
  non-empty token and a normalised value must hold no NUL, line feed or carriage return;
  otherwise \<open>append\<close> and \<open>set\<close> throw a \<open>TypeError\<close>, whose message (browser dependent)
  is the constant below.
\<close>

definition is_http_whitespace :: "char \<Rightarrow> bool" where
  "is_http_whitespace c = (c = CHR 0x09 \<or> c = CHR 0x0A \<or> c = CHR 0x0D \<or> c = CHR 0x20)"

definition normalize_value :: "string \<Rightarrow> string" where
  "normalize_value v =
     rev (dropWhile is_http_whitespace (rev (dropWhile is_http_whitespace v)))"

definition valid_value :: "string \<Rightarrow> bool" where
  "valid_value v = list_all (\<lambda>c. c \<noteq> CHR 0x00 \<and> c \<noteq> CHR 0x0A \<and> c \<noteq> CHR 0x0D) v"

definition is_tchar :: "char \<Rightarrow> bool" where
  "is_tchar c =
     (let n = (of_char c :: nat)
      in (48 \<le> n \<and> n \<le> 57) \<or> (65 \<le> n \<and> n \<le> 90) \<or> (97 \<le> n \<and> n \<le> 122)
         \<or> n \<in> set [33, 35, 36, 37, 38, 39, 42, 43, 45, 46, 94, 95, 96, 124, 126])"

definition valid_name :: "string \<Rightarrow> bool" where
  "valid_name n = (n \<noteq> [] \<and> list_all is_tchar n)"

definition invalid_header :: string where
  "invalid_header = ''TypeError: invalid header name or value''"

definition Headers_append :: "string \<Rightarrow> string \<Rightarrow> Headers \<Rightarrow> string + Headers" where
  "Headers_append name v hs =
     (let w = normalize_value v
      in if \<not> valid_name name \<or> \<not> valid_value w then Inl invalid_header
         else Inr (hs @ [(toLowerCase name, w)]))"

text \<open>\<open>new Headers(init)\<close>: every entry of \<open>init\<close> is appended in turn.\<close>

fun Headers_fill :: "(string \<times> string) list \<Rightarrow> Headers \<Rightarrow> string + Headers" where
  "Headers_fill [] hs = Inr hs"
| "Headers_fill ((n, v) # init) hs =
     (case Headers_append n v hs of Inl err \<Rightarrow> Inl err | Inr hs1 \<Rightarrow> Headers_fill init hs1)"

definition Headers_new :: "(string \<times> string) list option \<Rightarrow> string + Headers" where
  "Headers_new init = (case init of None \<Rightarrow> Inr [] | Some i \<Rightarrow> Headers_fill i [])"

text \<open>
  \<open>Headers.set\<close> overwrites the first header of that name and removes any further ones,
  or appends the header when there is none.
\<close>

fun set_first :: "string \<Rightarrow> string \<Rightarrow> Headers \<Rightarrow> Headers" where
  "set_first k v [] = []"
| "set_first k v ((n, w) # hs) =
     (if n = k then (k, v) # filter (\<lambda>(m, _). m \<noteq> k) hs else (n, w) # set_first k v hs)"

definition Headers_set :: "string \<Rightarrow> string \<Rightarrow> Headers \<Rightarrow> string + Headers" where
  "Headers_set name v hs =
     (let w = normalize_value v; k = toLowerCase name
      in if \<not> valid_name name \<or> \<not> valid_value w then Inl invalid_header
         else Inr (if list_ex (\<lambda>(m, _). m = k) hs then set_first k w hs else hs @ [(k, w)]))"

text \<open>
  The argument of \<open>fetchWithAuth\<close>: the \<open>RequestInit\<close> fields the callers use, the
  optional \<open>token\<close> and the optional \<open>onLogout\<close> callback, which acts on the
  application state.
\<close>

record options =
  o_method :: "string option"
  o_headers :: "(string \<times> string) list option"
  o_body :: "body option"
  o_token :: "string option"
  o_onLogout :: "(state \<Rightarrow> state) option"

text \<open>
  The network is a parameter: the outcome of a call is any function of what has
  happened so far and of the request, either a rejection (\<open>Inl\<close>, the error message) or
  a response (\<open>Inr\<close>).
\<close>

type_synonym outcome = "string + response"

type_synonym network = "event list \<Rightarrow> request \<Rightarrow> outcome"

definition expired_notice :: string where
  "expired_notice =
     ''Tu sesi'' @ [CHR 0xC3, CHR 0xB3] @ ''n ha expirado. Por favor, inicia sesi''
       @ [CHR 0xC3, CHR 0xB3] @ ''n nuevamente.''"

text \<open>
  \<open>fetchWithAuth\<close> up to its \<open>await\<close>: the headers are built from those of the caller,
  the bearer header is set when the token is truthy, and the call leaves the browser.
  When \<open>new Headers\<close> or \<open>set\<close> throws, no call is made and the promise of
  \<open>fetchWithAuth\<close> rejects with that error.
\<close>

definition build_headers :: "options \<Rightarrow> string + Headers" where
  "build_headers options =
     (case Headers_new (o_headers options) of
        Inl err \<Rightarrow> Inl err
      | Inr headers0 \<Rightarrow>
          if truthy (o_token options)
          then Headers_set ''Authorization'' (''Bearer '' @ the (o_token options)) headers0
          else Inr headers0)"

definition build_request :: "string \<Rightarrow> options \<Rightarrow> string + request" where
  "build_request u options =
     (case build_headers options of
        Inl err \<Rightarrow> Inl err
      | Inr hs \<Rightarrow>
          Inr \<lparr>url = u, method_r = o_method options, headers = hs, body_r = o_body options\<rparr>)"

definition fetch_issue :: "string \<Rightarrow> options \<Rightarrow> state \<Rightarrow> (string + request) \<times> state" where
  "fetch_issue u options s =
     (case build_request u options of
        Inl err \<Rightarrow> (Inl err, emit (Threw err) s)
      | Inr req \<Rightarrow> (Inr req, emit (Fetch req) s))"

text \<open>
  \<open>fetchWithAuth\<close> after its \<open>await\<close>: a rejection propagates to the caller; a response
  with status 401 and a callback raises the notice and then calls the callback; the
  response is returned in every case.
\<close>

definition fetch_settle :: "options \<Rightarrow> request \<Rightarrow> outcome \<Rightarrow> state \<Rightarrow> outcome \<times> state" where
  "fetch_settle options req out s =
     (case out of
        Inl err \<Rightarrow> (Inl err, emit (Rejected req err) s)
      | Inr resp \<Rightarrow>
          (let s1 = emit (Resolved req resp) s
           in case o_onLogout options of
                Some onLogout \<Rightarrow>
                  if status resp = 401
                  then (Inr resp, onLogout (emit OnLogout (alert expired_notice s1)))
                  else (Inr resp, s1)
              | None \<Rightarrow> (Inr resp, s1)))"

definition fetchWithAuth :: "network \<Rightarrow> string \<Rightarrow> options \<Rightarrow> state \<Rightarrow> outcome \<times> state" where
  "fetchWithAuth net u options s =
     (case fetch_issue u options s of
        (Inl err, s1) \<Rightarrow> (Inl err, s1)
      | (Inr req, s1) \<Rightarrow> fetch_settle options req (net (trace s) req) s1)"

text \<open>\<open>handleLogout\<close> of \<open>App.tsx\<close>, the callback every page is given.\<close>

definition handleLogout :: "state \<Rightarrow> state" where
  "handleLogout s = s\<lparr>token := None, page := ''dashboard''\<rparr>"


text \<open>The part of the state that belongs to \<open>App\<close> and decides what is rendered.\<close>

definition session :: "state \<Rightarrow> string option \<times> string \<times> bool" where
  "session s = (token s, page s, checkingToken s)"

section \<open>Batch upload controller\<close>

text \<open>
  \<open>loadHistorico\<close> starts the history call through the gateway and returns at once: the
  call leaves the browser, and its \<open>then\<close> handlers run later, outside the caller. When
  the call cannot be made, its \<open>catch\<close> handler records the error.
\<close>

definition historico_url :: string where
  "historico_url = ''http://localhost:8000/api/uploads/historico?limit=20''"

definition historico_options :: "string option \<Rightarrow> (state \<Rightarrow> state) option \<Rightarrow> options" where
  "historico_options tok onLogout =
     \<lparr>o_method = None, o_headers = None, o_body = None,
      o_token = or_undefined tok, o_onLogout = onLogout\<rparr>"

definition loadHistorico :: "string option \<Rightarrow> (state \<Rightarrow> state) option \<Rightarrow> state \<Rightarrow> state" where
  "loadHistorico tok onLogout s =
     (case fetch_issue historico_url (historico_options tok onLogout) s of
        (Inl err, s1) \<Rightarrow> s1\<lparr>opsError := Some ''Error desconocido''\<rparr>
      | (Inr req, s1) \<Rightarrow> s1)"

text \<open>
  Modelled from the spec: the helper \<open>sleep\<close> of \<open>utils/sleep\<close> is not among the sources;
  it suspends the caller for the given number of milliseconds. The constant
  \<open>UPLOAD_DELAY_MS\<close> of \<open>config\<close> is a parameter \<open>delay\<close> of the controller.
\<close>

definition sleep :: "nat \<Rightarrow> state \<Rightarrow> state" where
  "sleep ms s = emit (Sleep ms) s"

definition upload_url :: string where
  "upload_url = ''/api/upload/''"

definition upload_options ::
  "string option \<Rightarrow> DocType \<Rightarrow> (state \<Rightarrow> state) option \<Rightarrow> File \<Rightarrow> options" where
  "upload_options tok dt onLogout f =
     \<lparr>o_method = Some ''POST'', o_headers = None,
      o_body = Some (FormData [(''file'', FileValue f), (''tipo'', TextValue (DocType_str dt))]),
      o_token = or_undefined tok, o_onLogout = onLogout\<rparr>"

definition upload_failed_notice :: "File \<Rightarrow> string \<Rightarrow> string" where
  "upload_failed_notice f t = ''Fallo subiendo '' @ f_name f @ '': '' @ t"

text \<open>
  The \<open>for\<close> loop of \<open>confirmUpload\<close>, from index \<open>i\<close>. The token, document kind, queue
  and callback are the values the closure captured when the batch started. Whatever is
  thrown inside the \<open>try\<close> leaves the loop with the error (\<open>Inl\<close>): the gateway failing
  to build or make the call, and the body of a non-success response failing to be read.
\<close>

function upload_loop ::
  "network \<Rightarrow> nat \<Rightarrow> (state \<Rightarrow> state) option \<Rightarrow> string option \<Rightarrow> DocType \<Rightarrow> File list
     \<Rightarrow> nat \<Rightarrow> state \<Rightarrow> (string + unit) \<times> state" where
  "upload_loop net delay onLogout tok dt fs i s =
     (if i < length fs then
        (let s0 = s\<lparr>uploadingIndex := Some i\<rparr>
         in case fetchWithAuth net upload_url (upload_options tok dt onLogout (fs ! i)) s0 of
              (Inl err, s1) \<Rightarrow> (Inl err, s1)
            | (Inr res, s1) \<Rightarrow>
                if \<not> ok res then
                  (case text_r res of
                     Inl err \<Rightarrow> (Inl err, emit (Threw err) s1)
                   | Inr t \<Rightarrow>
                       upload_loop net delay onLogout tok dt fs (i + 1)
                         (alert (upload_failed_notice (fs ! i) t) s1))
                else
                  (let s2 = loadHistorico tok onLogout s1;
                       s3 = (if delay > 0 then sleep delay s2 else s2)
                   in upload_loop net delay onLogout tok dt fs (i + 1) s3))
      else (Inr (), s))"
  by pat_completeness auto
termination
  by (relation "measure (\<lambda>(net, delay, onLogout, tok, dt, fs, i, s). length fs - i)") auto

declare upload_loop.simps [simp del]

definition confirmUpload :: "network \<Rightarrow> nat \<Rightarrow> (state \<Rightarrow> state) option \<Rightarrow> state \<Rightarrow> state" where
  "confirmUpload net delay onLogout s =
     (case docType s of
        None \<Rightarrow> s
      | Some dt \<Rightarrow>
          if \<not> truthy (token s) \<or> length (files s) = 0 then s
          else
            (let s1 = s\<lparr>uploading := True, uploadingIndex := Some 0\<rparr>;
                 s3 = (case upload_loop net delay onLogout (token s) dt (files s) 0 s1 of
                         (Inr u, s2) \<Rightarrow> (clearFiles (s2\<lparr>showConfirm := False\<rparr>))\<lparr>showSuccess := True\<rparr>
                       | (Inl err, s2) \<Rightarrow> alert (''Error subiendo archivos: '' @ err) s2)
             in s3\<lparr>uploading := False, uploadingIndex := None\<rparr>))"







text \<open>
  Reading a trace: the requests sent to the upload intake, in order, the responses
  received to them, and whether the intake never sees a second upload request before the
  previous one is settled (\<open>p\<close> is the upload request in flight, if any).
\<close>

definition is_upload :: "request \<Rightarrow> bool" where
  "is_upload r = (url r = upload_url)"

fun upload_requests :: "event list \<Rightarrow> request list" where
  "upload_requests [] = []"
| "upload_requests (Fetch r # es) =
     (if is_upload r then r # upload_requests es else upload_requests es)"
| "upload_requests (e # es) = upload_requests es"

fun upload_responses :: "event list \<Rightarrow> (request \<times> response) list" where
  "upload_responses [] = []"
| "upload_responses (Resolved r resp # es) =
     (if is_upload r then (r, resp) # upload_responses es else upload_responses es)"
| "upload_responses (e # es) = upload_responses es"

fun one_at_a_time :: "request option \<Rightarrow> event list \<Rightarrow> bool" where
  "one_at_a_time p [] = True"
| "one_at_a_time p (Fetch r # es) =
     (if is_upload r then p = None \<and> one_at_a_time (Some r) es else one_at_a_time p es)"
| "one_at_a_time p (Resolved r resp # es) =
     (if is_upload r then p = Some r \<and> one_at_a_time None es else one_at_a_time p es)"
| "one_at_a_time p (Rejected r err # es) =
     (if is_upload r then p = Some r \<and> one_at_a_time None es else one_at_a_time p es)"
| "one_at_a_time p (e # es) = one_at_a_time p es"

text \<open>
  The events a batch adds to the trace; whether a call was rejected or an exception
  thrown among them, which is what ends a batch early; and a callback that performs no
  observable action of its own (as \<open>handleLogout\<close>).
\<close>

definition batch_trace :: "network \<Rightarrow> nat \<Rightarrow> (state \<Rightarrow> state) option \<Rightarrow> state \<Rightarrow> event list" where
  "batch_trace net delay onLogout s =
     drop (length (trace s)) (trace (confirmUpload net delay onLogout s))"

fun any_rejected :: "event list \<Rightarrow> bool" where
  "any_rejected [] = False"
| "any_rejected (Rejected r err # es) = True"
| "any_rejected (Threw err # es) = True"
| "any_rejected (e # es) = any_rejected es"

definition quiet :: "(state \<Rightarrow> state) option \<Rightarrow> bool" where
  "quiet onLogout = (case onLogout of None \<Rightarrow> True | Some cb \<Rightarrow> \<forall>s. trace (cb s) = trace s)"

text \<open>
  The request the loop sends for a file. When its headers cannot be built nothing is
  sent; the value is then the request without headers.
\<close>

definition upload_request ::
  "string option \<Rightarrow> DocType \<Rightarrow> (state \<Rightarrow> state) option \<Rightarrow> File \<Rightarrow> request" where
  "upload_request tok dt onLogout f =
     (case build_request upload_url (upload_options tok dt onLogout f) of
        Inr req \<Rightarrow> req
      | Inl err \<Rightarrow>
          \<lparr>url = upload_url, method_r = Some ''POST'', headers = [],
           body_r = o_body (upload_options tok dt onLogout f)\<rparr>)"

text \<open>
  Pacing, read off a trace. \<open>sleeps_next d es\<close>: the controller suspends for \<open>d\<close>
  before the next upload request (or the end of the batch). \<open>paced_after_success\<close> asks
  for the suspension after every upload that got a success response, and
  \<open>paced_after_each\<close> after every upload that got a response.
\<close>

fun sleeps_next :: "nat \<Rightarrow> event list \<Rightarrow> bool" where
  "sleeps_next d [] = False"
| "sleeps_next d (Sleep n # es) = (n = d)"
| "sleeps_next d (Fetch r # es) = (\<not> is_upload r \<and> sleeps_next d es)"
| "sleeps_next d (e # es) = sleeps_next d es"

fun paced_after_success :: "nat \<Rightarrow> event list \<Rightarrow> bool" where
  "paced_after_success d [] = True"
| "paced_after_success d (Resolved r resp # es) =
     ((is_upload r \<and> ok resp \<longrightarrow> sleeps_next d es) \<and> paced_after_success d es)"
| "paced_after_success d (e # es) = paced_after_success d es"

fun paced_after_each :: "nat \<Rightarrow> event list \<Rightarrow> bool" where
  "paced_after_each d [] = True"
| "paced_after_each d (Resolved r resp # es) =
     ((is_upload r \<longrightarrow> sleeps_next d es) \<and> paced_after_each d es)"
| "paced_after_each d (e # es) = paced_after_each d es"

text \<open>
  Failure reporting, read off a trace: after every upload that got a non-success
  response whose body could be read, the alert \<open>Fallo subiendo <name>: <body>\<close> with the
  name of that file and that body is raised before the next upload request.
  A response lets the loop go on when it is a success or its body can be read.
\<close>

definition file_of :: "request \<Rightarrow> File option" where
  "file_of r =
     (case body_r r of
        Some (FormData ((k, FileValue f) # rest)) \<Rightarrow> Some f
      | _ \<Rightarrow> None)"

fun alerted_next :: "string \<Rightarrow> event list \<Rightarrow> bool" where
  "alerted_next msg [] = False"
| "alerted_next msg (Alert m # es) = (m = msg \<or> alerted_next msg es)"
| "alerted_next msg (Fetch r # es) = (\<not> is_upload r \<and> alerted_next msg es)"
| "alerted_next msg (e # es) = alerted_next msg es"

fun failures_reported :: "event list \<Rightarrow> bool" where
  "failures_reported [] = True"
| "failures_reported (Resolved r resp # es) =
     ((is_upload r \<and> \<not> ok resp \<longrightarrow>
         (case text_r resp of
            Inl err \<Rightarrow> True
          | Inr t \<Rightarrow>
              (case file_of r of
                 Some f \<Rightarrow> alerted_next (''Fallo subiendo '' @ f_name f @ '': '' @ t) es
               | None \<Rightarrow> False)))
      \<and> failures_reported es)"
| "failures_reported (e # es) = failures_reported es"

definition continues :: "request \<times> response \<Rightarrow> bool" where
  "continues rr = (ok (snd rr) \<or> \<not> isl (text_r (snd rr)))"

text \<open>
  The events of the loop over the remaining files \<open>fs\<close>, computed file by file from the
  trace \<open>tr\<close> so far; the loop is shown below to emit exactly these.
\<close>

definition gateway_events :: "options \<Rightarrow> request \<Rightarrow> outcome \<Rightarrow> event list" where
  "gateway_events options req out =
     Fetch req
     # (case out of
          Inl err \<Rightarrow> [Rejected req err]
        | Inr resp \<Rightarrow>
            Resolved req resp
            # (if status resp = 401 \<and> o_onLogout options \<noteq> None
               then [Alert expired_notice, OnLogout] else []))"

definition call_events :: "network \<Rightarrow> string \<Rightarrow> options \<Rightarrow> event list \<Rightarrow> event list" where
  "call_events net u options tr =
     (case build_request u options of
        Inl err \<Rightarrow> [Threw err]
      | Inr req \<Rightarrow> gateway_events options req (net tr req))"

definition historico_events :: "string option \<Rightarrow> (state \<Rightarrow> state) option \<Rightarrow> event list" where
  "historico_events tok onLogout =
     (case build_request historico_url (historico_options tok onLogout) of
        Inl err \<Rightarrow> [Threw err]
      | Inr req \<Rightarrow> [Fetch req])"

definition file_events ::
  "nat \<Rightarrow> (state \<Rightarrow> state) option \<Rightarrow> string option \<Rightarrow> DocType \<Rightarrow> File \<Rightarrow> response
     \<Rightarrow> event list" where
  "file_events delay onLogout tok dt f resp =
     gateway_events (upload_options tok dt onLogout f) (upload_request tok dt onLogout f) (Inr resp)
     @ (if ok resp
        then historico_events tok onLogout @ (if delay > 0 then [Sleep delay] else [])
        else (case text_r resp of
                Inl err \<Rightarrow> [Threw err]
              | Inr t \<Rightarrow> [Alert (upload_failed_notice f t)]))"

fun loop_events ::
  "network \<Rightarrow> nat \<Rightarrow> (state \<Rightarrow> state) option \<Rightarrow> string option \<Rightarrow> DocType
     \<Rightarrow> event list \<Rightarrow> File list \<Rightarrow> event list" where
  "loop_events net delay onLogout tok dt tr [] = []"
| "loop_events net delay onLogout tok dt tr (f # fs) =
     (case build_request upload_url (upload_options tok dt onLogout f) of
        Inl err \<Rightarrow> [Threw err]
      | Inr req \<Rightarrow>
          (case net tr req of
             Inl err \<Rightarrow> [Fetch req, Rejected req err]
           | Inr resp \<Rightarrow>
               (let evs = file_events delay onLogout tok dt f resp
                in if \<not> ok resp \<and> isl (text_r resp) then evs
                   else evs @ loop_events net delay onLogout tok dt (tr @ evs) fs)))"

section \<open>History tracker: manual retry\<close>

text \<open>
  The retry cell of a history row: the button is rendered only for a record whose
  status is \<open>FAILED\<close>, and it is disabled while \<open>retryingId\<close> is that record's id.
\<close>

definition retry_offered :: "Operacion \<Rightarrow> bool" where
  "retry_offered op = (op_status op = Some FAILED)"

definition retry_disabled :: "state \<Rightarrow> Operacion \<Rightarrow> bool" where
  "retry_disabled s op = (retryingId s = Some (op_id op))"

definition retry_options ::
  "string option \<Rightarrow> (state \<Rightarrow> state) option \<Rightarrow> Operacion \<Rightarrow> options" where
  "retry_options tok onLogout op =
     \<lparr>o_method = Some ''POST'',
      o_headers = Some [(''Content-Type'', ''application/json'')],
      o_body = Some (Json (''{\"tipo\":\"''
                            @ (if op_tipo op = FACTURA then ''factura'' else ''venta'')
                            @ ''\"}'')),
      o_token = or_undefined tok, o_onLogout = onLogout\<rparr>"

definition retry_url :: "Operacion \<Rightarrow> string" where
  "retry_url op = ''/api/upload/'' @ op_id op @ ''/retry''"

text \<open>
  \<open>retryWebhook\<close> runs in two steps with other handlers free to run in between: up to
  its \<open>await\<close> (the guard on the token, \<open>setRetryingId(op.id)\<close>, the call leaving), and
  from the settled call to the end of its \<open>finally\<close> block. When the call cannot be made
  the first step runs through \<open>catch\<close> and \<open>finally\<close> at once.
\<close>

definition retry_failed_notice :: "string \<Rightarrow> string" where
  "retry_failed_notice msg = ''No se pudo reintentar: '' @ msg"

definition retryWebhook_start ::
  "string option \<Rightarrow> (state \<Rightarrow> state) option \<Rightarrow> Operacion \<Rightarrow> state \<Rightarrow> request option \<times> state" where
  "retryWebhook_start tok onLogout op s =
     (if \<not> truthy tok then (None, alert (''Sesi'' @ [CHR 0xC3, CHR 0xB3] @ ''n caducada'') s)
      else
        (let s1 = s\<lparr>retryingId := Some (op_id op)\<rparr>
         in case fetch_issue (retry_url op) (retry_options tok onLogout op) s1 of
              (Inl err, s2) \<Rightarrow> (None, (alert (retry_failed_notice err) s2)\<lparr>retryingId := None\<rparr>)
            | (Inr req, s2) \<Rightarrow> (Some req, s2)))"

definition retryWebhook_finish ::
  "string option \<Rightarrow> (state \<Rightarrow> state) option \<Rightarrow> Operacion \<Rightarrow> request \<Rightarrow> outcome \<Rightarrow> state \<Rightarrow> state" where
  "retryWebhook_finish tok onLogout op req out s =
     (let s2 = (case fetch_settle (retry_options tok onLogout op) req out s of
                  (Inl err, s1) \<Rightarrow> alert (retry_failed_notice err) s1
                | (Inr r, s1) \<Rightarrow>
                    if \<not> ok r
                    then (case text_r r of
                            Inl err \<Rightarrow> alert (retry_failed_notice err) s1
                          | Inr errText \<Rightarrow> alert (retry_failed_notice errText) s1)
                    else (case json_r r of
                            Inl err \<Rightarrow> alert (retry_failed_notice err) s1
                          | Inr data \<Rightarrow> loadHistorico tok onLogout s1))
      in s2\<lparr>retryingId := None\<rparr>)"

text \<open>
  The page together with the invocations of \<open>retryWebhook\<close> that are suspended at their
  \<open>await\<close>, each with the token, record and request it holds. The operator clicks the
  retry button of a row (possible only when the button is rendered and enabled), and a
  pending call settles.
\<close>

record ui =
  ui_state :: state
  pending :: "(string option \<times> Operacion \<times> request) list"

datatype ui_event = ClickRetry Operacion | Settle nat outcome

definition ui_step :: "(state \<Rightarrow> state) option \<Rightarrow> ui_event \<Rightarrow> ui \<Rightarrow> ui option" where
  "ui_step onLogout e u =
     (case e of
        ClickRetry op \<Rightarrow>
          if op \<in> set (ops (ui_state u)) \<and> retry_offered op
             \<and> \<not> retry_disabled (ui_state u) op
          then (case retryWebhook_start (token (ui_state u)) onLogout op (ui_state u) of
                  (None, s1) \<Rightarrow> Some (u\<lparr>ui_state := s1\<rparr>)
                | (Some req, s1) \<Rightarrow>
                    Some (u\<lparr>ui_state := s1,
                            pending := pending u @ [(token (ui_state u), op, req)]\<rparr>))
          else None
      | Settle k out \<Rightarrow>
          if k < length (pending u)
          then (case pending u ! k of
                  (tok, op, req) \<Rightarrow>
                    Some (u\<lparr>ui_state := retryWebhook_finish tok onLogout op req out (ui_state u),
                            pending := take k (pending u) @ drop (Suc k) (pending u)\<rparr>))
          else None)"

fun ui_run :: "(state \<Rightarrow> state) option \<Rightarrow> ui_event list \<Rightarrow> ui \<Rightarrow> ui option" where
  "ui_run onLogout [] u = Some u"
| "ui_run onLogout (e # es) u =
     (case ui_step onLogout e u of None \<Rightarrow> None | Some u1 \<Rightarrow> ui_run onLogout es u1)"

definition in_flight :: "string \<Rightarrow> ui \<Rightarrow> nat" where
  "in_flight ident u = length (filter (\<lambda>(tok, op, req). op_id op = ident) (pending u))"

section \<open>Queue operations in sequence\<close>

datatype queue_op = AddFiles "File list" | RemoveFile string nat | ClearFiles

fun queue_step :: "queue_op \<Rightarrow> state \<Rightarrow> state" where
  "queue_step (AddFiles incoming) s = addFiles incoming s"
| "queue_step (RemoveFile name sz) s = removeFile name sz s"
| "queue_step ClearFiles s = clearFiles s"

fun queue_run :: "queue_op list \<Rightarrow> state \<Rightarrow> state" where
  "queue_run [] s = s"
| "queue_run (q # qs) s = queue_run qs (queue_step q s)"

section \<open>Concrete scenarios\<close>

definition a_pdf :: File where
  "a_pdf = \<lparr>f_name = ''a.pdf'', f_size = 100, f_type = ''application/pdf'', f_content = ''A''\<rparr>"

definition b_xlsx :: File where
  "b_xlsx = \<lparr>f_name = ''b.xlsx'', f_size = 200, f_type = '''', f_content = ''B''\<rparr>"

definition ok_pdf :: File where
  "ok_pdf = \<lparr>f_name = ''ok.pdf'', f_size = 10, f_type = ''application/pdf'', f_content = ''P''\<rparr>"

definition report_docx :: File where
  "report_docx =
     \<lparr>f_name = ''report.docx'', f_size = 20, f_type = ''application/msword'', f_content = ''D''\<rparr>"

definition state0 :: state where
  "state0 =
     \<lparr>token = Some ''tok'', page = ''upload'', checkingToken = False,
      docType = Some factura, files = [],
      showConfirm = False, uploading = False, uploadingIndex = None, retryingId = None,
      showSuccess = False, ops = [], opsError = None, trace = []\<rparr>"

definition batch0 :: state where
  "batch0 = state0\<lparr>files := [a_pdf, b_xlsx], showConfirm := True\<rparr>"

definition resp_ok :: response where
  "resp_ok = \<lparr>status = 200, text_r = Inr ''{}'', json_r = Inr ''{}''\<rparr>"

definition resp_500 :: response where
  "resp_500 = \<lparr>status = 500, text_r = Inr ''boom'', json_r = Inl ''Unexpected token''\<rparr>"

definition resp_500_unreadable :: response where
  "resp_500_unreadable =
     \<lparr>status = 500, text_r = Inl ''body stream error'', json_r = Inl ''body stream error''\<rparr>"

definition resp_401 :: response where
  "resp_401 = \<lparr>status = 401, text_r = Inr ''expired'', json_r = Inl ''Unexpected token''\<rparr>"

text \<open>
  Networks: every call succeeds; the first call of a batch fails with status 500, with a
  body that can or cannot be read; every call is answered 401.
\<close>

definition net_ok :: network where
  "net_ok tr req = Inr resp_ok"

definition net_500_first :: network where
  "net_500_first tr req = (if tr = [] then Inr resp_500 else Inr resp_ok)"

definition net_500_unreadable_first :: network where
  "net_500_unreadable_first tr req = (if tr = [] then Inr resp_500_unreadable else Inr resp_ok)"

definition net_401 :: network where
  "net_401 tr req = Inr resp_401"

definition op42 :: Operacion where
  "op42 =
     \<lparr>op_id = ''42'', op_fecha = ''2025-01-01'', op_tipo = FACTURA,
      op_original_filename = ''a.pdf'', op_descripcion = '''', op_tam_bytes = None,
      op_storage_path = None, op_status = Some FAILED\<rparr>"

definition op43 :: Operacion where
  "op43 =
     \<lparr>op_id = ''43'', op_fecha = ''2025-01-02'', op_tipo = VENTA,
      op_original_filename = ''b.xlsx'', op_descripcion = '''', op_tam_bytes = None,
      op_storage_path = None, op_status = Some FAILED\<rparr>"

definition ui0 :: ui where
  "ui0 = \<lparr>ui_state = state0\<lparr>ops := [op42, op43]\<rparr>, pending = []\<rparr>"

text \<open>
  Gateway calls: with a caller-supplied \<open>Authorization\<close> header, with and without a
  callback, and with tokens that are empty, padded with spaces, or hold a line feed.
\<close>

definition opts_basic :: options where
  "opts_basic =
     \<lparr>o_method = None, o_headers = Some [(''Authorization'', ''Basic abc''), (''X-Trace'', ''1'')],
      o_body = None, o_token = Some ''t'', o_onLogout = None\<rparr>"

definition opts_json :: options where
  "opts_json =
     \<lparr>o_method = Some ''POST'', o_headers = Some [(''Content-Type'', ''application/json'')],
      o_body = Some (Json ''{}''), o_token = Some ''tok'', o_onLogout = Some handleLogout\<rparr>"

definition opts_no_callback :: options where
  "opts_no_callback =
     \<lparr>o_method = None, o_headers = None, o_body = None, o_token = Some ''tok'',
      o_onLogout = None\<rparr>"

definition opts_empty_token :: options where
  "opts_empty_token = opts_no_callback\<lparr>o_token := Some []\<rparr>"

definition opts_padded_token :: options where
  "opts_padded_token = opts_no_callback\<lparr>o_token := Some '' t ''\<rparr>"

definition opts_newline_token :: options where
  "opts_newline_token = opts_no_callback\<lparr>o_token := Some [CHR ''a'', CHR 0x0A, CHR ''b'']\<rparr>"

text \<open>The requests the gateway builds for two of these calls.\<close>

definition req_json :: request where
  "req_json =
     \<lparr>url = ''/api/x'', method_r = Some ''POST'',
      headers = [(''content-type'', ''application/json''), (''authorization'', ''Bearer tok'')],
      body_r = Some (Json ''{}'')\<rparr>"

definition req_no_callback :: request where
  "req_no_callback =
     \<lparr>url = ''/api/x'', method_r = None, headers = [(''authorization'', ''Bearer tok'')],
      body_r = None\<rparr>"

section \<open>Properties of the upload queue builder\<close>

lemma list_ex_key:
  "list_ex (\<lambda>d. f_name d = f_name f \<and> f_size d = f_size f) q \<longleftrightarrow> file_key f \<in> file_key ` set q"
  unfolding list_ex_iff file_key_def image_iff prod.inject by (intro bex_cong refl) auto

lemma dedup_push_distinct:
  "distinct (map file_key d) \<Longrightarrow> distinct (map file_key (dedup_push d v))"
  by (induction v arbitrary: d) (simp_all add: list_ex_key Let_def)

lemma dedup_push_keys:
  "file_key ` set (dedup_push d v) = file_key ` set d \<union> file_key ` set v"
  by (induction v arbitrary: d) (auto simp: list_ex_key Let_def)

lemma dedup_push_prefix:
  "prefix d (dedup_push d v)"
proof (induction v arbitrary: d)
  case Nil
  show ?case by simp
next
  case (Cons f v)
  show ?case
  proof (cases "list_ex (\<lambda>d. f_name d = f_name f \<and> f_size d = f_size f) d")
    case True
    then show ?thesis using Cons.IH [of d] by simp
  next
    case False
    have "prefix d (d @ [f])" by simp
    also have "prefix (d @ [f]) (dedup_push (d @ [f]) v)" by (rule Cons.IH)
    finally show ?thesis using False by simp
  qed
qed

lemma dedup_push_present:
  "file_key f \<in> file_key ` set d \<Longrightarrow> dedup_push d [f] = d"
  by (simp add: list_ex_key)

lemma endsWith_suffix: "endsWith s suf \<longleftrightarrow> suffix suf s"
proof
  assume "endsWith s suf"
  then have "s = take (length s - length suf) s @ suf"
    by (metis append_take_drop_id endsWith_def)
  then show "suffix suf s" by (metis suffixI)
next
  assume "suffix suf s"
  then obtain p where "s = p @ suf" by (auto simp: suffix_def)
  then show "endsWith s suf" by (simp add: endsWith_def)
qed

lemma dedup_push_set:
  "set (dedup_push d v) \<subseteq> set d \<union> set v"
proof (induction v arbitrary: d)
  case Nil
  show ?case by simp
next
  case (Cons f v)
  have "set (dedup_push (d @ [f]) v) \<subseteq> set (d @ [f]) \<union> set v" by (rule Cons.IH)
  moreover have "set (dedup_push d v) \<subseteq> set d \<union> set v" by (rule Cons.IH)
  ultimately show ?case by (auto simp: Let_def)
qed

section \<open>Properties of the request gateway\<close>

lemma set_first_others:
  "filter (\<lambda>(n, _). n \<noteq> k) (set_first k v hs) = filter (\<lambda>(n, _). n \<noteq> k) hs"
  by (induction hs) (auto simp: case_prod_unfold)

lemma set_first_named:
  "(k, b) \<in> set hs \<Longrightarrow> filter (\<lambda>(n, _). n = k) (set_first k v hs) = [(k, v)]"
  by (induction hs) (auto simp: case_prod_unfold filter_empty_conv)

lemma lower_Authorization: "toLowerCase ''Authorization'' = ''authorization''"
  by code_simp

lemma valid_name_Authorization: "valid_name ''Authorization''"
  by code_simp

lemma Headers_set_Authorization:
  "Headers_set ''Authorization'' v hs = Inl err
     \<longleftrightarrow> \<not> valid_value (normalize_value v) \<and> err = invalid_header"
  "Headers_set ''Authorization'' v hs = Inr hs1 \<Longrightarrow>
     valid_value (normalize_value v)
     \<and> filter (\<lambda>(n, _). n = ''authorization'') hs1 = [(''authorization'', normalize_value v)]
     \<and> filter (\<lambda>(n, _). n \<noteq> ''authorization'') hs1
         = filter (\<lambda>(n, _). n \<noteq> ''authorization'') hs"
  by (auto simp: Headers_set_def Let_def valid_name_Authorization lower_Authorization
        set_first_named set_first_others list_ex_iff filter_empty_conv split: if_splits)

lemma Headers_fill_Inr:
  "Headers_fill init hs = Inr hs1 \<Longrightarrow>
   hs1 = hs @ map (\<lambda>(n, v). (toLowerCase n, normalize_value v)) init"
proof (induction init arbitrary: hs)
  case Nil
  then show ?case by simp
next
  case (Cons nv init)
  obtain n v where nv: "nv = (n, v)" by (cases nv)
  from Cons.prems nv
  have ok: "Headers_append n v hs = Inr (hs @ [(toLowerCase n, normalize_value v)])"
    and rest: "Headers_fill init (hs @ [(toLowerCase n, normalize_value v)]) = Inr hs1"
    by (auto simp: Headers_append_def Let_def split: if_splits sum.splits)
  from Cons.IH [OF rest] show ?case by (simp add: nv)
qed

lemma dropWhile_all_kept:
  "xs \<noteq> [] \<Longrightarrow> \<not> P (hd xs) \<Longrightarrow> dropWhile P xs = xs"
  by (cases xs) simp_all

lemma normalize_value_id:
  assumes "v \<noteq> []" and "\<not> is_http_whitespace (hd v)" and "\<not> is_http_whitespace (last v)"
  shows "normalize_value v = v"
proof -
  have "dropWhile is_http_whitespace v = v"
    using assms(1,2) by (rule dropWhile_all_kept)
  moreover have "dropWhile is_http_whitespace (rev v) = rev v"
    using assms(1,3) by (intro dropWhile_all_kept) (simp_all add: hd_rev)
  ultimately show ?thesis by (simp add: normalize_value_def)
qed

lemma normalize_value_keeps:
  assumes "t \<noteq> []" and "\<not> is_http_whitespace (last t)"
  shows "normalize_value (''Bearer '' @ t) = ''Bearer '' @ t"
proof (rule normalize_value_id)
  show "''Bearer '' @ t \<noteq> []" by simp
  show "\<not> is_http_whitespace (hd (''Bearer '' @ t))" by (simp add: is_http_whitespace_def)
  show "\<not> is_http_whitespace (last (''Bearer '' @ t))" using assms by simp
qed

lemma fetchWithAuth_fst:
  "fst (fetchWithAuth net u options s)
     = (case build_request u options of Inl err \<Rightarrow> Inl err | Inr req \<Rightarrow> net (trace s) req)"
  by (simp add: fetchWithAuth_def fetch_issue_def fetch_settle_def Let_def
           split: sum.splits option.splits)

lemma fetchWithAuth_trace:
  "quiet (o_onLogout options) \<Longrightarrow>
   trace (snd (fetchWithAuth net u options s)) = trace s @ call_events net u options (trace s)"
  by (auto simp: fetchWithAuth_def fetch_issue_def fetch_settle_def Let_def quiet_def emit_def
        alert_def gateway_events_def call_events_def split: sum.splits option.splits)

lemma fetchWithAuth_session:
  "OnLogout \<notin> set (call_events net u options (trace s)) \<Longrightarrow>
   session (snd (fetchWithAuth net u options s)) = session s"
  by (auto simp: fetchWithAuth_def fetch_issue_def fetch_settle_def Let_def emit_def session_def
        alert_def gateway_events_def call_events_def split: sum.splits option.splits if_splits)

section \<open>The loop emits the events computed file by file\<close>

lemma upload_options_onLogout [simp]:
  "o_onLogout (upload_options tok dt onLogout f) = onLogout"
  by (simp add: upload_options_def)

lemma build_headers_shared:
  "build_headers (historico_options tok onLogout) = build_headers (upload_options tok dt onLogout f)"
  by (simp add: build_headers_def historico_options_def upload_options_def Headers_new_def
        cong: if_cong)

lemma upload_request_built:
  "build_request upload_url (upload_options tok dt onLogout f) = Inr req \<Longrightarrow>
   upload_request tok dt onLogout f = req"
  by (simp add: upload_request_def)

lemma historico_events_built:
  assumes "build_request upload_url (upload_options tok dt onLogout f) = Inr req"
  shows "\<exists>h. historico_events tok onLogout = [Fetch h] \<and> url h = historico_url"
  using assms build_headers_shared [of tok onLogout dt f]
  by (auto simp: historico_events_def build_request_def split: sum.splits)

lemma loadHistorico_trace:
  "trace (loadHistorico tok onLogout s) = trace s @ historico_events tok onLogout"
  by (simp add: loadHistorico_def fetch_issue_def historico_events_def emit_def
        split: sum.splits)

lemma loadHistorico_session:
  "session (loadHistorico tok onLogout s) = session s"
  by (simp add: loadHistorico_def fetch_issue_def emit_def session_def split: sum.splits)

lemma any_rejected_append:
  "any_rejected (es @ es') = (any_rejected es \<or> any_rejected es')"
  by (induction es rule: any_rejected.induct) simp_all

lemma any_rejected_gateway_events:
  "\<not> any_rejected (gateway_events options req (Inr resp))"
  by (simp add: gateway_events_def)

lemma any_rejected_file_events:
  assumes "build_request upload_url (upload_options tok dt onLogout f) = Inr req"
  shows "any_rejected (file_events delay onLogout tok dt f resp)
           = (\<not> ok resp \<and> isl (text_r resp))"
proof -
  obtain h where "historico_events tok onLogout = [Fetch h]"
    using historico_events_built [OF assms] by blast
  then show ?thesis
    by (simp add: file_events_def any_rejected_append any_rejected_gateway_events
          split: sum.splits)
qed

lemma OnLogout_file_events:
  assumes "build_request upload_url (upload_options tok dt onLogout f) = Inr req"
  shows "OnLogout \<in> set (file_events delay onLogout tok dt f resp)
           = (OnLogout \<in> set (gateway_events (upload_options tok dt onLogout f) req (Inr resp)))"
proof -
  obtain h where "historico_events tok onLogout = [Fetch h]"
    using historico_events_built [OF assms] by blast
  then show ?thesis
    using upload_request_built [OF assms]
    by (auto simp: file_events_def split: sum.splits)
qed

lemma upload_loop_events:
  "quiet onLogout \<Longrightarrow>
   trace (snd (upload_loop net delay onLogout tok dt fs i s))
     = trace s @ loop_events net delay onLogout tok dt (trace s) (drop i fs)
   \<and> isl (fst (upload_loop net delay onLogout tok dt fs i s))
     = any_rejected (loop_events net delay onLogout tok dt (trace s) (drop i fs))
   \<and> (OnLogout \<notin> set (loop_events net delay onLogout tok dt (trace s) (drop i fs)) \<longrightarrow>
        session (snd (upload_loop net delay onLogout tok dt fs i s)) = session s)"
proof (induction net delay onLogout tok dt fs i s rule: upload_loop.induct)
  case (1 net delay onLogout tok dt fs i s)
  show ?case
  proof (cases "i < length fs")
    case False
    then show ?thesis by (simp add: upload_loop.simps [of _ _ _ _ _ fs i])
  next
    case True
    define s0 where "s0 = s\<lparr>uploadingIndex := Some i\<rparr>"
    define opts where "opts = upload_options tok dt onLogout (fs ! i)"
    define r where "r = fetchWithAuth net upload_url opts s0"
    have tr0: "trace s0 = trace s" and se0: "session s0 = session s"
      by (simp_all add: s0_def session_def)
    have q: "quiet (o_onLogout opts)" using "1.prems" by (simp add: opts_def)
    have r1: "fst r = (case build_request upload_url opts of
                         Inl err \<Rightarrow> Inl err | Inr req \<Rightarrow> net (trace s) req)"
      by (simp add: r_def fetchWithAuth_fst tr0 cong: sum.case_cong)
    have r2: "trace (snd r) = trace s @ call_events net upload_url opts (trace s)"
      using fetchWithAuth_trace [OF q, of net upload_url s0] by (simp add: r_def tr0)
    have r3: "session (snd r) = session s"
      if "OnLogout \<notin> set (call_events net upload_url opts (trace s))"
      using fetchWithAuth_session [of net upload_url opts s0] that
      by (simp add: r_def tr0 se0)
    have dr: "drop i fs = fs ! i # drop (Suc i) fs"
      using True by (simp add: Cons_nth_drop_Suc)
    have rr: "fetchWithAuth net upload_url (upload_options tok dt onLogout (fs ! i))
                (s\<lparr>uploadingIndex := Some i\<rparr>) = r"
      by (simp add: r_def opts_def s0_def)
    show ?thesis
    proof (cases "build_request upload_url opts")
      case (Inl err)
      then obtain s1 where r: "r = (Inl err, s1)" using r1 by (cases r) auto
      have ce: "call_events net upload_url opts (trace s) = [Threw err]"
        using Inl by (simp add: call_events_def)
      have t1: "trace s1 = trace s @ [Threw err]" using r2 r ce by simp
      have e1: "session s1 = session s" using r3 r ce by simp
      have step: "upload_loop net delay onLogout tok dt fs i s = (Inl err, s1)"
        by (subst upload_loop.simps) (simp add: True rr r)
      show ?thesis
        using Inl t1 e1 by (simp add: step dr opts_def [symmetric])
    next
      case built: (Inr req)
      have built': "build_request upload_url (upload_options tok dt onLogout (fs ! i)) = Inr req"
        using built by (simp add: opts_def)
      have ureq: "upload_request tok dt onLogout (fs ! i) = req"
        by (rule upload_request_built [OF built'])
      have ce: "call_events net upload_url opts (trace s)
                  = gateway_events opts req (net (trace s) req)"
        using built by (simp add: call_events_def)
      show ?thesis
      proof (cases "net (trace s) req")
        case (Inl err)
        then obtain s1 where r: "r = (Inl err, s1)" using r1 built by (cases r) auto
        have t1: "trace s1 = trace s @ [Fetch req, Rejected req err]"
          using r2 r Inl ce by (simp add: gateway_events_def)
        have e1: "session s1 = session s"
          using r3 r ce Inl by (simp add: gateway_events_def)
        have step: "upload_loop net delay onLogout tok dt fs i s = (Inl err, s1)"
          by (subst upload_loop.simps) (simp add: True rr r)
        show ?thesis
          using Inl t1 e1 built' by (simp add: step dr)
      next
        case (Inr resp)
        then obtain s1 where r: "r = (Inr resp, s1)" using r1 built by (cases r) auto
        define gw where "gw = gateway_events opts req (Inr resp)"
        have t1: "trace s1 = trace s @ gw"
          using r2 r Inr ce by (simp add: gw_def)
        have e1: "session s1 = session s" if "OnLogout \<notin> set gw"
          using r3 r ce Inr that by (simp add: gw_def)
        have nr: "any_rejected (file_events delay onLogout tok dt (fs ! i) resp)
                    = (\<not> ok resp \<and> isl (text_r resp))"
          by (rule any_rejected_file_events [OF built'])
        have lo: "OnLogout \<in> set (file_events delay onLogout tok dt (fs ! i) resp)
                    = (OnLogout \<in> set gw)"
          using OnLogout_file_events [OF built'] by (simp add: gw_def opts_def)
        show ?thesis
        proof (cases "ok resp")
          case False
          show ?thesis
          proof (cases "text_r resp")
            case unreadable: (Inl err)
            have fe: "file_events delay onLogout tok dt (fs ! i) resp = gw @ [Threw err]"
              using False unreadable by (simp add: file_events_def gw_def opts_def ureq)
            have step: "upload_loop net delay onLogout tok dt fs i s
                        = (Inl err, emit (Threw err) s1)"
              by (subst upload_loop.simps) (simp add: True rr r False unreadable)
            have lo': "OnLogout \<in> set (gw @ [Threw err]) = (OnLogout \<in> set gw)" by simp
            show ?thesis
              using Inr built' False unreadable t1 e1 nr lo'
              by (simp add: step dr Let_def fe emit_def session_def)
          next
            case readable: (Inr t)
            define s2 where "s2 = alert (upload_failed_notice (fs ! i) t) s1"
            have IH: "trace (snd (upload_loop net delay onLogout tok dt fs (i + 1) s2))
                  = trace s2 @ loop_events net delay onLogout tok dt (trace s2) (drop (i + 1) fs)
                \<and> isl (fst (upload_loop net delay onLogout tok dt fs (i + 1) s2))
                  = any_rejected (loop_events net delay onLogout tok dt (trace s2) (drop (i + 1) fs))
                \<and> (OnLogout \<notin> set (loop_events net delay onLogout tok dt (trace s2) (drop (i + 1) fs))
                    \<longrightarrow> session (snd (upload_loop net delay onLogout tok dt fs (i + 1) s2))
                          = session s2)"
              unfolding s2_def
              by (rule "1.IH"(1) [of s0 "Inr resp" s1 resp t])
                 (use True r False readable "1.prems" in \<open>simp_all add: r_def opts_def s0_def\<close>)
            have t2: "trace s2 = trace s @ file_events delay onLogout tok dt (fs ! i) resp"
              using False readable t1
              by (simp add: s2_def alert_def emit_def file_events_def gw_def opts_def ureq)
            have e2: "session s2 = session s1"
              by (simp add: s2_def alert_def emit_def session_def)
            have step: "upload_loop net delay onLogout tok dt fs i s
                        = upload_loop net delay onLogout tok dt fs (i + 1) s2"
              by (subst upload_loop.simps) (simp add: True rr r False readable s2_def)
            show ?thesis
              using Inr built' IH e1 e2 nr lo readable
              by (auto simp: step t2 dr Let_def any_rejected_append)
          qed
        next
          case ok: True
          define s2 where "s2 = loadHistorico tok onLogout s1"
          define s3 where "s3 = (if delay > 0 then sleep delay s2 else s2)"
          have IH: "trace (snd (upload_loop net delay onLogout tok dt fs (i + 1) s3))
                  = trace s3 @ loop_events net delay onLogout tok dt (trace s3) (drop (i + 1) fs)
                \<and> isl (fst (upload_loop net delay onLogout tok dt fs (i + 1) s3))
                  = any_rejected (loop_events net delay onLogout tok dt (trace s3) (drop (i + 1) fs))
                \<and> (OnLogout \<notin> set (loop_events net delay onLogout tok dt (trace s3) (drop (i + 1) fs))
                    \<longrightarrow> session (snd (upload_loop net delay onLogout tok dt fs (i + 1) s3))
                          = session s3)"
            by (rule "1.IH"(2) [of s0 "Inr resp" s1 resp s2 s3])
               (use True r ok "1.prems" in \<open>simp_all add: r_def opts_def s0_def s2_def s3_def\<close>)
          have t3: "trace s3 = trace s @ file_events delay onLogout tok dt (fs ! i) resp"
            using ok t1
            by (simp add: s3_def s2_def sleep_def emit_def file_events_def gw_def opts_def ureq
                  loadHistorico_trace)
          have e3: "session s3 = session s1"
            using loadHistorico_session [of tok onLogout s1]
            by (simp add: s3_def s2_def sleep_def emit_def session_def)
          have step: "upload_loop net delay onLogout tok dt fs i s
                      = upload_loop net delay onLogout tok dt fs (i + 1) s3"
            by (subst upload_loop.simps) (simp add: True rr r ok s3_def s2_def Let_def)
          show ?thesis
            using Inr built' IH e1 e3 nr lo ok
            by (auto simp: step t3 dr Let_def any_rejected_append)
        qed
      qed
    qed
  qed
qed

section \<open>Properties of the events of a batch\<close>

lemma url_built: "build_request u options = Inr req \<Longrightarrow> url req = u"
  by (auto simp: build_request_def split: sum.splits)

lemma body_built: "build_request u options = Inr req \<Longrightarrow> body_r req = o_body options"
  by (auto simp: build_request_def split: sum.splits)

lemma is_upload_upload_request [simp]: "is_upload (upload_request tok dt onLogout f)"
  by (auto simp: is_upload_def upload_request_def url_built split: sum.splits)

lemma file_of_upload_request [simp]: "file_of (upload_request tok dt onLogout f) = Some f"
  by (auto simp: file_of_def upload_request_def upload_options_def dest!: body_built
        split: sum.splits)

lemma not_is_upload_historico: "url h = historico_url \<Longrightarrow> \<not> is_upload h"
  by (simp add: is_upload_def historico_url_def upload_url_def)

lemma built_for_every_file:
  assumes "build_headers (historico_options tok onLogout) = Inr hs"
  shows "\<exists>req. build_request upload_url (upload_options tok dt onLogout f) = Inr req"
  using assms build_headers_shared [of tok onLogout dt f] by (simp add: build_request_def)

lemma unbuilt_for_every_file:
  assumes "build_headers (historico_options tok onLogout) = Inl err"
  shows "build_request upload_url (upload_options tok dt onLogout f) = Inl err"
  using assms build_headers_shared [of tok onLogout dt f] by (simp add: build_request_def)

subsection \<open>The events of one file in front of the rest\<close>

lemma file_events_shape:
  assumes "build_request upload_url (upload_options tok dt onLogout f) = Inr req"
  shows "\<exists>h mid. url h = historico_url
       \<and> file_events delay onLogout tok dt f resp
          = Fetch req # Resolved req resp # mid
            @ (if ok resp then Fetch h # (if delay > 0 then [Sleep delay] else [])
               else (case text_r resp of
                       Inl err \<Rightarrow> [Threw err]
                     | Inr t \<Rightarrow> [Alert (upload_failed_notice f t)]))
       \<and> (mid = [] \<or> mid = [Alert expired_notice, OnLogout])"
proof -
  obtain h where h: "historico_events tok onLogout = [Fetch h]" "url h = historico_url"
    using historico_events_built [OF assms] by blast
  show ?thesis
    using h upload_request_built [OF assms]
    by (auto simp: file_events_def gateway_events_def)
qed

lemma one_at_a_time_file_events:
  assumes "build_request upload_url (upload_options tok dt onLogout f) = Inr req"
  shows "one_at_a_time None (file_events delay onLogout tok dt f resp @ es)
           = one_at_a_time None es"
proof -
  have u: "is_upload req"
    using url_built [OF assms] by (simp add: is_upload_def)
  obtain h mid where "url h = historico_url"
    and "file_events delay onLogout tok dt f resp
          = Fetch req # Resolved req resp # mid
            @ (if ok resp then Fetch h # (if delay > 0 then [Sleep delay] else [])
               else (case text_r resp of
                       Inl err \<Rightarrow> [Threw err]
                     | Inr t \<Rightarrow> [Alert (upload_failed_notice f t)]))"
    and "mid = [] \<or> mid = [Alert expired_notice, OnLogout]"
    using file_events_shape [OF assms] by blast
  then show ?thesis
    using u by (auto simp: not_is_upload_historico split: sum.splits)
qed

lemma upload_requests_file_events:
  assumes "build_request upload_url (upload_options tok dt onLogout f) = Inr req"
  shows "upload_requests (file_events delay onLogout tok dt f resp @ es)
           = upload_request tok dt onLogout f # upload_requests es"
proof -
  have u: "is_upload req"
    using url_built [OF assms] by (simp add: is_upload_def)
  obtain h mid where "url h = historico_url"
    and "file_events delay onLogout tok dt f resp
          = Fetch req # Resolved req resp # mid
            @ (if ok resp then Fetch h # (if delay > 0 then [Sleep delay] else [])
               else (case text_r resp of
                       Inl err \<Rightarrow> [Threw err]
                     | Inr t \<Rightarrow> [Alert (upload_failed_notice f t)]))"
    and "mid = [] \<or> mid = [Alert expired_notice, OnLogout]"
    using file_events_shape [OF assms] by blast
  then show ?thesis
    using u upload_request_built [OF assms]
    by (auto simp: not_is_upload_historico split: sum.splits)
qed

lemma upload_responses_file_events:
  assumes "build_request upload_url (upload_options tok dt onLogout f) = Inr req"
  shows "upload_responses (file_events delay onLogout tok dt f resp @ es)
           = (upload_request tok dt onLogout f, resp) # upload_responses es"
proof -
  have u: "is_upload req"
    using url_built [OF assms] by (simp add: is_upload_def)
  obtain h mid where "url h = historico_url"
    and "file_events delay onLogout tok dt f resp
          = Fetch req # Resolved req resp # mid
            @ (if ok resp then Fetch h # (if delay > 0 then [Sleep delay] else [])
               else (case text_r resp of
                       Inl err \<Rightarrow> [Threw err]
                     | Inr t \<Rightarrow> [Alert (upload_failed_notice f t)]))"
    and "mid = [] \<or> mid = [Alert expired_notice, OnLogout]"
    using file_events_shape [OF assms] by blast
  then show ?thesis
    using u upload_request_built [OF assms]
    by (auto simp: not_is_upload_historico split: sum.splits)
qed

lemma failures_reported_file_events:
  assumes "build_request upload_url (upload_options tok dt onLogout f) = Inr req"
  shows "failures_reported (file_events delay onLogout tok dt f resp @ es)
           = failures_reported es"
proof -
  have u: "is_upload req" "file_of req = Some f"
    using upload_request_built [OF assms] is_upload_upload_request [of tok dt onLogout f]
      file_of_upload_request [of tok dt onLogout f]
    by simp_all
  obtain h mid where "url h = historico_url"
    and "file_events delay onLogout tok dt f resp
          = Fetch req # Resolved req resp # mid
            @ (if ok resp then Fetch h # (if delay > 0 then [Sleep delay] else [])
               else (case text_r resp of
                       Inl err \<Rightarrow> [Threw err]
                     | Inr t \<Rightarrow> [Alert (upload_failed_notice f t)]))"
    and "mid = [] \<or> mid = [Alert expired_notice, OnLogout]"
    using file_events_shape [OF assms] by blast
  then show ?thesis
    using u by (auto simp: upload_failed_notice_def split: sum.splits)
qed

subsection \<open>The events of the whole loop\<close>

lemma loop_events_unbuilt:
  assumes "build_headers (historico_options tok onLogout) = Inl err" and "fs \<noteq> []"
  shows "loop_events net delay onLogout tok dt tr fs = [Threw err]"
  using assms unbuilt_for_every_file [OF assms(1)] by (cases fs) simp_all

lemma one_at_a_time_loop_events:
  "one_at_a_time None (loop_events net delay onLogout tok dt tr fs)"
proof (induction fs arbitrary: tr)
  case Nil
  show ?case by simp
next
  case (Cons f fs)
  show ?case
  proof (cases "build_request upload_url (upload_options tok dt onLogout f)")
    case (Inl err)
    then show ?thesis by simp
  next
    case (Inr req)
    have u: "is_upload req" using url_built [OF Inr] by (simp add: is_upload_def)
    show ?thesis
      using Inr u Cons.IH one_at_a_time_file_events [OF Inr, of delay _ "[]"]
      by (simp add: Let_def one_at_a_time_file_events [OF Inr] split: sum.splits)
  qed
qed

lemma upload_requests_loop_events_prefix:
  "prefix (upload_requests (loop_events net delay onLogout tok dt tr fs))
          (map (upload_request tok dt onLogout) fs)"
proof (induction fs arbitrary: tr)
  case Nil
  show ?case by simp
next
  case (Cons f fs)
  show ?case
  proof (cases "build_request upload_url (upload_options tok dt onLogout f)")
    case (Inl err)
    then show ?thesis by simp
  next
    case (Inr req)
    have u: "is_upload req" "upload_request tok dt onLogout f = req"
      using url_built [OF Inr] upload_request_built [OF Inr] by (simp_all add: is_upload_def)
    show ?thesis
      using Inr u Cons.IH upload_requests_file_events [OF Inr, of delay _ "[]"]
      by (simp add: Let_def upload_requests_file_events [OF Inr] split: sum.splits)
  qed
qed

lemma upload_requests_loop_events_all:
  "\<not> any_rejected (loop_events net delay onLogout tok dt tr fs) \<Longrightarrow>
   upload_requests (loop_events net delay onLogout tok dt tr fs)
     = map (upload_request tok dt onLogout) fs"
proof (induction fs arbitrary: tr)
  case Nil
  show ?case by simp
next
  case (Cons f fs)
  show ?case
  proof (cases "build_request upload_url (upload_options tok dt onLogout f)")
    case (Inl err)
    then show ?thesis using Cons.prems by simp
  next
    case (Inr req)
    show ?thesis
      using Inr Cons.IH Cons.prems any_rejected_file_events [OF Inr, of delay]
      by (auto simp: Let_def upload_requests_file_events [OF Inr] any_rejected_append
            split: sum.splits if_splits)
  qed
qed

lemma upload_requests_loop_events_length:
  assumes "build_headers (historico_options tok onLogout) = Inr hs"
  shows "length (upload_requests (loop_events net delay onLogout tok dt tr fs))
     = min (length fs)
         (Suc (length (filter continues
                 (upload_responses (loop_events net delay onLogout tok dt tr fs)))))"
proof (induction fs arbitrary: tr)
  case Nil
  show ?case by simp
next
  case (Cons f fs)
  obtain req where b: "build_request upload_url (upload_options tok dt onLogout f) = Inr req"
    using built_for_every_file [OF assms] by blast
  have u: "is_upload req" "upload_request tok dt onLogout f = req"
    using url_built [OF b] upload_request_built [OF b] by (simp_all add: is_upload_def)
  show ?case
  proof (cases "net tr req")
    case (Inl err)
    then show ?thesis using b u by simp
  next
    case (Inr resp)
    show ?thesis
    proof (cases "\<not> ok resp \<and> isl (text_r resp)")
      case True
      then show ?thesis
        using b Inr upload_requests_file_events [OF b, of delay resp "[]"]
          upload_responses_file_events [OF b, of delay resp "[]"]
        by (simp add: Let_def continues_def)
    next
      case False
      then have c: "continues (req, resp)" by (auto simp: continues_def)
      have "loop_events net delay onLogout tok dt tr (f # fs)
              = file_events delay onLogout tok dt f resp
                @ loop_events net delay onLogout tok dt
                    (tr @ file_events delay onLogout tok dt f resp) fs"
        using b Inr False by (auto simp: Let_def)
      then show ?thesis
        using c u Cons.IH [of "tr @ file_events delay onLogout tok dt f resp"]
        by (simp add: upload_requests_file_events [OF b] upload_responses_file_events [OF b])
    qed
  qed
qed

lemma failures_reported_loop_events:
  "failures_reported (loop_events net delay onLogout tok dt tr fs)"
proof (induction fs arbitrary: tr)
  case Nil
  show ?case by simp
next
  case (Cons f fs)
  show ?case
  proof (cases "build_request upload_url (upload_options tok dt onLogout f)")
    case (Inl err)
    then show ?thesis by simp
  next
    case (Inr req)
    have u: "is_upload req" using url_built [OF Inr] by (simp add: is_upload_def)
    show ?thesis
      using Inr u Cons.IH failures_reported_file_events [OF Inr, of delay _ "[]"]
      by (simp add: Let_def failures_reported_file_events [OF Inr] split: sum.splits)
  qed
qed

subsection \<open>A closing alert changes none of these readings\<close>

lemma one_at_a_time_snoc_Alert:
  "one_at_a_time p (es @ [Alert m]) = one_at_a_time p es"
  by (induction p es rule: one_at_a_time.induct) simp_all

lemma upload_requests_snoc_Alert:
  "upload_requests (es @ [Alert m]) = upload_requests es"
  by (induction es rule: upload_requests.induct) simp_all

lemma upload_responses_snoc_Alert:
  "upload_responses (es @ [Alert m]) = upload_responses es"
  by (induction es rule: upload_responses.induct) simp_all

lemma alerted_next_snoc_Alert:
  "alerted_next msg es \<Longrightarrow> alerted_next msg (es @ [Alert m])"
  by (induction msg es rule: alerted_next.induct) auto

lemma failures_reported_snoc_Alert:
  "failures_reported es \<Longrightarrow> failures_reported (es @ [Alert m])"
  by (induction es rule: failures_reported.induct)
     (auto simp: alerted_next_snoc_Alert split: option.splits sum.splits)

section \<open>The events and the final state of a batch\<close>

lemma confirmUpload_started:
  assumes "docType s = Some dt" and "truthy (token s)" and "files s \<noteq> []"
  shows "confirmUpload net delay onLogout s =
           (case upload_loop net delay onLogout (token s) dt (files s) 0
                   (s\<lparr>uploading := True, uploadingIndex := Some 0\<rparr>) of
              (Inr u, s2) \<Rightarrow> (clearFiles (s2\<lparr>showConfirm := False\<rparr>))\<lparr>showSuccess := True\<rparr>
            | (Inl err, s2) \<Rightarrow> alert (''Error subiendo archivos: '' @ err) s2)
           \<lparr>uploading := False, uploadingIndex := None\<rparr>"
  using assms by (simp add: confirmUpload_def Let_def)

lemma batch_trace_shape:
  fixes net :: network and delay :: nat
  assumes "docType s = Some dt" and "truthy (token s)" and "files s \<noteq> []" and "quiet onLogout"
  defines "L \<equiv> loop_events net delay onLogout (token s) dt (trace s) (files s)"
  shows "(\<not> any_rejected L \<and> batch_trace net delay onLogout s = L)
       \<or> (any_rejected L \<and> (\<exists>m. batch_trace net delay onLogout s = L @ [Alert m]))"
proof -
  define s1 where "s1 = s\<lparr>uploading := True, uploadingIndex := Some 0\<rparr>"
  define r where "r = upload_loop net delay onLogout (token s) dt (files s) 0 s1"
  have ev: "trace (snd r) = trace s @ L" "isl (fst r) = any_rejected L"
    using upload_loop_events [OF assms(4), of net delay "token s" dt "files s" 0 s1]
    by (simp_all add: r_def s1_def L_def)
  have cu: "confirmUpload net delay onLogout s =
              (case r of
                 (Inr u, s2) \<Rightarrow> (clearFiles (s2\<lparr>showConfirm := False\<rparr>))\<lparr>showSuccess := True\<rparr>
               | (Inl err, s2) \<Rightarrow> alert (''Error subiendo archivos: '' @ err) s2)
              \<lparr>uploading := False, uploadingIndex := None\<rparr>"
    using confirmUpload_started [OF assms(1-3)] by (simp add: r_def s1_def)
  obtain out s2 where r: "r = (out, s2)" by (cases r)
  show ?thesis
  proof (cases out)
    case (Inl err)
    then show ?thesis
      using ev r
      by (simp add: cu batch_trace_def alert_def emit_def)
  next
    case (Inr u)
    then show ?thesis
      using ev r
      by (simp add: cu batch_trace_def clearFiles_def)
  qed
qed

lemma any_rejected_batch_trace:
  assumes "docType s = Some dt" and "truthy (token s)" and "files s \<noteq> []" and "quiet onLogout"
  shows "any_rejected (batch_trace net delay onLogout s)
       = any_rejected (loop_events net delay onLogout (token s) dt (trace s) (files s))"
  using batch_trace_shape [OF assms, of net delay]
  by (auto simp: any_rejected_append)




lemma quiet_handleLogout: "quiet (Some handleLogout)"
  by (simp add: quiet_def handleLogout_def)

section \<open>The claims about the request gateway\<close>

text \<open>
  C7, as amended. Whenever the gateway makes the call, the headers of the caller were
  valid (and are sent with lower-cased names and trimmed values). The gateway then sets
  the header \<open>Authorization\<close> exactly when the token is truthy (supplied and not the
  empty string); it is then the only header of that name, so a caller-supplied
  \<open>Authorization\<close> header is replaced, and its value is \<open>Bearer <credential>\<close> with
  surrounding whitespace removed, which is \<open>Bearer <credential>\<close> itself when the
  credential does not end in whitespace. Every other header of the caller is kept, in
  order, in either case; without a truthy token the headers are those of the caller;
  the target, method and body are passed on as they are. The call is made exactly when
  the headers of the caller are valid and the bearer value holds no NUL, line feed or
  carriage return; otherwise the gateway rejects with the error and no call leaves.
\<close>

theorem gateway_bearer_header:
  "(build_request u options = Inr req \<longrightarrow>
      (\<exists>h0. Headers_new (o_headers options) = Inr h0
         \<and> (truthy (o_token options) \<longrightarrow>
              filter (\<lambda>(n, _). n = ''authorization'') (headers req)
                = [(''authorization'',
                    normalize_value (''Bearer '' @ the (o_token options)))])
         \<and> (\<not> truthy (o_token options) \<longrightarrow> headers req = h0)
         \<and> filter (\<lambda>(n, _). n \<noteq> ''authorization'') (headers req)
             = filter (\<lambda>(n, _). n \<noteq> ''authorization'') h0)
      \<and> url req = u \<and> method_r req = o_method options \<and> body_r req = o_body options
      \<and> fetch_issue u options s = (Inr req, s\<lparr>trace := trace s @ [Fetch req]\<rparr>))
   \<and> (build_request u options = Inl err \<longrightarrow>
        fetchWithAuth net u options s = (Inl err, s\<lparr>trace := trace s @ [Threw err]\<rparr>))
   \<and> ((\<exists>r. build_request u options = Inr r) \<longleftrightarrow>
        (\<exists>h0. Headers_new (o_headers options) = Inr h0)
        \<and> (truthy (o_token options) \<longrightarrow>
             valid_value (normalize_value (''Bearer '' @ the (o_token options)))))
   \<and> (t \<noteq> [] \<and> \<not> is_http_whitespace (last t) \<longrightarrow>
        normalize_value (''Bearer '' @ t) = ''Bearer '' @ t)
   \<and> (Headers_new (Some init) = Inr h1 \<longrightarrow>
        h1 = map (\<lambda>(n, v). (toLowerCase n, normalize_value v)) init)"
proof (intro conjI impI)
  assume b: "build_request u options = Inr req"
  then obtain h0 where h0: "Headers_new (o_headers options) = Inr h0"
    and bh: "build_headers options = Inr (headers req)"
    by (auto simp: build_request_def build_headers_def split: sum.splits)
  have set: "Headers_set ''Authorization'' (''Bearer '' @ the (o_token options)) h0
               = Inr (headers req)" if "truthy (o_token options)"
    using bh h0 that by (simp add: build_headers_def)
  have "truthy (o_token options) \<longrightarrow>
          filter (\<lambda>(n, _). n = ''authorization'') (headers req)
            = [(''authorization'', normalize_value (''Bearer '' @ the (o_token options)))]"
    using Headers_set_Authorization(2) [OF set] by simp
  moreover have "\<not> truthy (o_token options) \<longrightarrow> headers req = h0"
    using bh h0 by (auto simp: build_headers_def)
  moreover have "filter (\<lambda>(n, _). n \<noteq> ''authorization'') (headers req)
                   = filter (\<lambda>(n, _). n \<noteq> ''authorization'') h0"
  proof (cases "truthy (o_token options)")
    case True
    then show ?thesis using Headers_set_Authorization(2) [OF set] by simp
  next
    case False
    then show ?thesis using bh h0 by (simp add: build_headers_def)
  qed
  ultimately show "\<exists>h0. Headers_new (o_headers options) = Inr h0
         \<and> (truthy (o_token options) \<longrightarrow>
              filter (\<lambda>(n, _). n = ''authorization'') (headers req)
                = [(''authorization'',
                    normalize_value (''Bearer '' @ the (o_token options)))])
         \<and> (\<not> truthy (o_token options) \<longrightarrow> headers req = h0)
         \<and> filter (\<lambda>(n, _). n \<noteq> ''authorization'') (headers req)
             = filter (\<lambda>(n, _). n \<noteq> ''authorization'') h0"
    using h0 by blast
  show "url req = u" "method_r req = o_method options" "body_r req = o_body options"
    using b by (auto simp: build_request_def split: sum.splits)
  show "fetch_issue u options s = (Inr req, s\<lparr>trace := trace s @ [Fetch req]\<rparr>)"
    using b by (simp add: fetch_issue_def emit_def)
next
  assume "build_request u options = Inl err"
  then show "fetchWithAuth net u options s = (Inl err, s\<lparr>trace := trace s @ [Threw err]\<rparr>)"
    by (simp add: fetchWithAuth_def fetch_issue_def emit_def)
next
  show "(\<exists>r. build_request u options = Inr r) \<longleftrightarrow>
        (\<exists>h0. Headers_new (o_headers options) = Inr h0)
        \<and> (truthy (o_token options) \<longrightarrow>
             valid_value (normalize_value (''Bearer '' @ the (o_token options))))"
  proof (cases "Headers_new (o_headers options)")
    case (Inl e)
    then show ?thesis by (simp add: build_request_def build_headers_def)
  next
    case (Inr h0)
    show ?thesis
    proof (cases "truthy (o_token options)")
      case False
      then show ?thesis using Inr by (simp add: build_request_def build_headers_def)
    next
      case True
      show ?thesis
      proof (cases "Headers_set ''Authorization'' (''Bearer '' @ the (o_token options)) h0")
        case bad: (Inl e)
        then have "\<not> valid_value (normalize_value (''Bearer '' @ the (o_token options)))"
          using Headers_set_Authorization(1) by blast
        then show ?thesis using Inr True bad by (simp add: build_request_def build_headers_def)
      next
        case good: (Inr hs)
        then have "valid_value (normalize_value (''Bearer '' @ the (o_token options)))"
          using Headers_set_Authorization(2) by blast
        then show ?thesis using Inr True good by (simp add: build_request_def build_headers_def)
      qed
    qed
  qed
next
  assume "t \<noteq> [] \<and> \<not> is_http_whitespace (last t)"
  then show "normalize_value (''Bearer '' @ t) = ''Bearer '' @ t"
    using normalize_value_keeps [of t] by blast
next
  assume "Headers_new (Some init) = Inr h1"
  then show "h1 = map (\<lambda>(n, v). (toLowerCase n, normalize_value v)) init"
    using Headers_fill_Inr [of init "[]" h1] by (simp add: Headers_new_def)
qed

theorem gateway_bearer_header_witness:
  "build_request ''/api/x'' opts_json = Inr req_json
   \<and> truthy (o_token opts_json)
   \<and> filter (\<lambda>(n, _). n = ''authorization'') (headers req_json)
        = [(''authorization'', ''Bearer tok'')]
   \<and> filter (\<lambda>(n, _). n \<noteq> ''authorization'') (headers req_json)
        = [(''content-type'', ''application/json'')]
   \<and> fetch_issue ''/api/x'' opts_json state0 = (Inr req_json, state0\<lparr>trace := [Fetch req_json]\<rparr>)
   \<and> build_request ''/api/x'' opts_newline_token = Inl invalid_header
   \<and> fetchWithAuth net_ok ''/api/x'' opts_newline_token state0
        = (Inl invalid_header, state0\<lparr>trace := [Threw invalid_header]\<rparr>)"
proof -
  have b: "build_request ''/api/x'' opts_json = Inr req_json" by code_simp
  have e: "build_request ''/api/x'' opts_newline_token = Inl invalid_header" by code_simp
  have t: "truthy (o_token opts_json)" by (simp add: opts_json_def truthy_def)
  have t0: "trace state0 = []" by (simp add: state0_def)
  have h: "headers req_json
             = [(''content-type'', ''application/json''), (''authorization'', ''Bearer tok'')]"
    by (simp add: req_json_def)
  show ?thesis
    using gateway_bearer_header
            [of "''/api/x''" opts_json req_json state0 invalid_header net_ok "''tok''" "[]" "[]"]
      gateway_bearer_header
            [of "''/api/x''" opts_newline_token req_json state0 invalid_header net_ok "''tok''"
                "[]" "[]"]
      b e t t0
    by (simp add: h)
qed

text \<open>
  C7 as stated fails in four ways: a caller-supplied \<open>Authorization\<close> header is not
  preserved when a credential is supplied; an empty credential, though supplied, gets no
  header; a credential padded with spaces is not sent as it is; and with a credential
  that holds a line feed no header is attached because no call is made at all.
\<close>

theorem gateway_caller_authorization_counterexample:
  "Headers_new (o_headers opts_basic)
     = Inr [(''authorization'', ''Basic abc''), (''x-trace'', ''1'')]
   \<and> build_request ''/api/x'' opts_basic
       = Inr \<lparr>url = ''/api/x'', method_r = None,
              headers = [(''authorization'', ''Bearer t''), (''x-trace'', ''1'')],
              body_r = None\<rparr>
   \<and> o_token opts_empty_token = Some []
   \<and> build_request ''/api/x'' opts_empty_token
       = Inr \<lparr>url = ''/api/x'', method_r = None, headers = [], body_r = None\<rparr>
   \<and> o_token opts_padded_token = Some '' t ''
   \<and> build_request ''/api/x'' opts_padded_token
       = Inr \<lparr>url = ''/api/x'', method_r = None,
              headers = [(''authorization'', ''Bearer  t'')], body_r = None\<rparr>
   \<and> build_request ''/api/x'' opts_newline_token = Inl invalid_header
   \<and> trace (snd (fetchWithAuth net_ok ''/api/x'' opts_newline_token state0))
       = [Threw invalid_header]"
  by code_simp

text \<open>
  C2. When the call is made, its response has status 401 and a callback was supplied,
  the gateway returns the response after these events and no others: the call, its
  response, the notice that the session has expired, and then one invocation of the
  callback, which is applied to the state. With \<open>handleLogout\<close> of \<open>App\<close> as the
  callback, the stored token is absent afterwards and the page is back to the start.
\<close>

theorem gateway_401_forces_logout:
  assumes "build_request u options = Inr req"
    and "net (trace s) req = Inr resp"
    and "status resp = 401"
    and "o_onLogout options = Some cb"
  shows "fetchWithAuth net u options s =
           (Inr resp,
            cb (s\<lparr>trace := trace s @ [Fetch req, Resolved req resp,
                                        Alert expired_notice, OnLogout]\<rparr>))
       \<and> (cb = handleLogout \<longrightarrow>
            token (snd (fetchWithAuth net u options s)) = None
          \<and> page (snd (fetchWithAuth net u options s)) = ''dashboard''
          \<and> trace (snd (fetchWithAuth net u options s))
              = trace s @ [Fetch req, Resolved req resp, Alert expired_notice, OnLogout]
          \<and> count_list (drop (length (trace s)) (trace (snd (fetchWithAuth net u options s))))
               OnLogout = 1)"
  using assms
  by (simp add: fetchWithAuth_def fetch_issue_def fetch_settle_def Let_def emit_def alert_def
        handleLogout_def)

theorem gateway_401_forces_logout_witness:
  "build_request ''/api/x'' opts_json = Inr req_json
   \<and> net_401 (trace state0) req_json = Inr resp_401
   \<and> status resp_401 = 401
   \<and> o_onLogout opts_json = Some handleLogout
   \<and> token state0 = Some ''tok''
   \<and> token (snd (fetchWithAuth net_401 ''/api/x'' opts_json state0)) = None
   \<and> count_list (trace (snd (fetchWithAuth net_401 ''/api/x'' opts_json state0))) OnLogout = 1"
proof -
  have h0: "build_request ''/api/x'' opts_json = Inr req_json" by code_simp
  have h1: "net_401 (trace state0) req_json = Inr resp_401"
    by (simp add: net_401_def)
  have h2: "status resp_401 = 401" by (simp add: resp_401_def)
  have h3: "o_onLogout opts_json = Some handleLogout" by (simp add: opts_json_def)
  have t0: "trace state0 = []" "token state0 = Some ''tok''" by (simp_all add: state0_def)
  show ?thesis
    using gateway_401_forces_logout
            [where net = net_401 and s = state0 and u = "''/api/x''" and options = opts_json,
             OF h0 h1 h2 h3, THEN conjunct2]
      h0 h1 h2 h3 t0
    by simp
qed

text \<open>
  C10. When the call is made, its response has status 401 and no callback was supplied,
  the gateway returns the response as it is and only the call and its response are added
  to the trace: no notice, no logout, and the stored token and the rest of the state are
  untouched.
\<close>

theorem gateway_401_without_callback:
  assumes "build_request u options = Inr req"
    and "net (trace s) req = Inr resp"
    and "status resp = 401"
    and "o_onLogout options = None"
  shows "fetchWithAuth net u options s =
           (Inr resp, s\<lparr>trace := trace s @ [Fetch req, Resolved req resp]\<rparr>)"
  using assms
  by (simp add: fetchWithAuth_def fetch_issue_def fetch_settle_def Let_def emit_def)

theorem gateway_401_without_callback_witness:
  "build_request ''/api/x'' opts_no_callback = Inr req_no_callback
   \<and> net_401 (trace state0) req_no_callback = Inr resp_401
   \<and> status resp_401 = 401
   \<and> o_onLogout opts_no_callback = None
   \<and> fst (fetchWithAuth net_401 ''/api/x'' opts_no_callback state0) = Inr resp_401
   \<and> token (snd (fetchWithAuth net_401 ''/api/x'' opts_no_callback state0)) = Some ''tok''
   \<and> trace (snd (fetchWithAuth net_401 ''/api/x'' opts_no_callback state0))
       = [Fetch req_no_callback, Resolved req_no_callback resp_401]"
proof -
  have h0: "build_request ''/api/x'' opts_no_callback = Inr req_no_callback" by code_simp
  have h1: "net_401 (trace state0) req_no_callback = Inr resp_401"
    by (simp add: net_401_def)
  have h2: "status resp_401 = 401" by (simp add: resp_401_def)
  have h3: "o_onLogout opts_no_callback = None" by (simp add: opts_no_callback_def)
  have t0: "trace state0 = []" "token state0 = Some ''tok''" by (simp_all add: state0_def)
  show ?thesis
    using gateway_401_without_callback
            [where net = net_401 and s = state0 and u = "''/api/x''"
               and options = opts_no_callback, OF h0 h1 h2 h3]
      h0 h1 h2 h3 t0
    by simp
qed

section \<open>The claims about the upload queue builder\<close>

lemma some_filtered_out:
  "(length (filter P xs) \<noteq> length xs) = (\<exists>x\<in>set xs. \<not> P x)"
proof -
  have "length (filter P xs) + length (filter (\<lambda>x. \<not> P x) xs) = length xs"
    by (rule sum_length_filter_compl)
  moreover have "(length (filter (\<lambda>x. \<not> P x) xs) = 0) = (\<forall>x\<in>set xs. P x)"
    by (simp add: filter_empty_conv)
  ultimately show ?thesis by (cases "\<forall>x\<in>set xs. P x") auto
qed

lemma addFiles_files:
  "files (addFiles incoming s) = dedup_push (files s) (filter isAllowed incoming)"
  by (simp add: addFiles_def Let_def alert_def emit_def)

lemma addFiles_trace:
  "trace (addFiles incoming s)
     = trace s @ (if \<exists>c\<in>set incoming. \<not> isAllowed c then [Alert ignored_notice] else [])"
  using some_filtered_out [of isAllowed incoming]
  by (simp add: addFiles_def Let_def alert_def emit_def)

text \<open>
  C8. A candidate passes validation exactly when its MIME type is one of the two allowed
  types or its lower-cased name ends in \<open>.pdf\<close> or \<open>.xlsx\<close>. Adding a list of
  candidates raises the ignored-files notice exactly when some candidate fails
  validation, and nothing else; every valid candidate is then in the queue under its
  (name, size) key, whatever else was rejected; the queue gains nothing but valid
  candidates and keeps what it held, in order.
\<close>

theorem addFiles_partial_acceptance:
  "(isAllowed f \<longleftrightarrow>
      f_type f \<in> {''application/pdf'',
                  ''application/vnd.openxmlformats-officedocument.spreadsheetml.sheet''}
      \<or> suffix ''.pdf'' (toLowerCase (f_name f))
      \<or> suffix ''.xlsx'' (toLowerCase (f_name f)))
   \<and> trace (addFiles incoming s)
       = trace s @ (if \<exists>c\<in>set incoming. \<not> isAllowed c then [Alert ignored_notice] else [])
   \<and> (\<forall>c\<in>set incoming. isAllowed c \<longrightarrow>
         file_key c \<in> file_key ` set (files (addFiles incoming s)))
   \<and> set (files (addFiles incoming s)) \<subseteq> set (files s) \<union> {c \<in> set incoming. isAllowed c}
   \<and> prefix (files s) (files (addFiles incoming s))"
proof (intro conjI)
  show "isAllowed f \<longleftrightarrow>
      f_type f \<in> {''application/pdf'',
                  ''application/vnd.openxmlformats-officedocument.spreadsheetml.sheet''}
      \<or> suffix ''.pdf'' (toLowerCase (f_name f))
      \<or> suffix ''.xlsx'' (toLowerCase (f_name f))"
    by (simp add: isAllowed_def Let_def ALLOWED_TYPES_def endsWith_suffix)
  show "trace (addFiles incoming s)
       = trace s @ (if \<exists>c\<in>set incoming. \<not> isAllowed c then [Alert ignored_notice] else [])"
    by (rule addFiles_trace)
  show "\<forall>c\<in>set incoming. isAllowed c \<longrightarrow>
         file_key c \<in> file_key ` set (files (addFiles incoming s))"
    by (simp add: addFiles_files dedup_push_keys)
  show "set (files (addFiles incoming s)) \<subseteq> set (files s) \<union> {c \<in> set incoming. isAllowed c}"
    using dedup_push_set [of "files s" "filter isAllowed incoming"]
    by (auto simp: addFiles_files)
  show "prefix (files s) (files (addFiles incoming s))"
    by (simp add: addFiles_files dedup_push_prefix)
qed

theorem addFiles_partial_acceptance_witness:
  "\<not> isAllowed report_docx \<and> isAllowed ok_pdf
   \<and> files (addFiles [report_docx, ok_pdf] state0) = [ok_pdf]
   \<and> trace (addFiles [report_docx, ok_pdf] state0) = [Alert ignored_notice]"
proof -
  have a: "\<not> isAllowed report_docx" "isAllowed ok_pdf" by code_simp+
  have s0: "files state0 = []" "trace state0 = []" by (simp_all add: state0_def)
  have tr: "trace (addFiles [report_docx, ok_pdf] state0) = [Alert ignored_notice]"
    using addFiles_partial_acceptance [of ok_pdf "[report_docx, ok_pdf]" state0] a s0
    by auto
  have "files (addFiles [report_docx, ok_pdf] state0) = [ok_pdf]"
    by (simp add: addFiles_files s0 a)
  then show ?thesis using a tr by simp
qed

text \<open>
  C9. A queue without two entries of the same (name, size) stays so under \<open>addFiles\<close>,
  \<open>removeFile\<close> and \<open>clearFiles\<close>, and so under any sequence of them. A candidate
  whose (name, size) is already in the queue leaves the queue as it is; when the
  candidate is a valid file, the whole state is unchanged, so nothing is reported.
\<close>

theorem queue_no_duplicates:
  assumes "no_duplicates (files s)"
  shows "no_duplicates (files (addFiles incoming s))
       \<and> no_duplicates (files (removeFile name sz s))
       \<and> no_duplicates (files (clearFiles s))
       \<and> no_duplicates (files (queue_run qs s))
       \<and> (file_key c \<in> file_key ` set (files s) \<longrightarrow>
            files (addFiles [c] s) = files s \<and> (isAllowed c \<longrightarrow> addFiles [c] s = s))"
proof -
  have add: "no_duplicates (files (addFiles inc t))" if "no_duplicates (files t)" for inc t
    using that by (simp add: no_duplicates_def addFiles_files dedup_push_distinct)
  have rem: "no_duplicates (files (removeFile n z t))" if "no_duplicates (files t)" for n z t
    using that by (simp add: no_duplicates_def removeFile_def distinct_map_filter)
  have clr: "no_duplicates (files (clearFiles t))" for t
    by (simp add: no_duplicates_def clearFiles_def)
  have step: "no_duplicates (files (queue_step q t))" if "no_duplicates (files t)" for q t
    using that add rem clr by (cases q) simp_all
  have run: "no_duplicates (files (queue_run qs t))" if "no_duplicates (files t)" for t
    using that by (induction qs arbitrary: t) (simp_all add: step)
  have dup: "files (addFiles [c] s) = files s \<and> (isAllowed c \<longrightarrow> addFiles [c] s = s)"
    if "file_key c \<in> file_key ` set (files s)"
    using that by (simp add: addFiles_def Let_def list_ex_key)
  show ?thesis
    using assms add rem clr run dup by blast
qed

theorem queue_no_duplicates_witness:
  "no_duplicates (files (state0\<lparr>files := [a_pdf]\<rparr>))
   \<and> file_key a_pdf \<in> file_key ` set (files (state0\<lparr>files := [a_pdf]\<rparr>))
   \<and> isAllowed a_pdf
   \<and> addFiles [a_pdf] (state0\<lparr>files := [a_pdf]\<rparr>) = state0\<lparr>files := [a_pdf]\<rparr>
   \<and> no_duplicates (files (addFiles [a_pdf, b_xlsx, a_pdf] (state0\<lparr>files := [a_pdf]\<rparr>)))
   \<and> no_duplicates (files (removeFile ''a.pdf'' 100 (state0\<lparr>files := [a_pdf]\<rparr>)))"
proof -
  have h: "no_duplicates (files (state0\<lparr>files := [a_pdf]\<rparr>))"
    by (simp add: no_duplicates_def)
  have k: "file_key a_pdf \<in> file_key ` set (files (state0\<lparr>files := [a_pdf]\<rparr>))"
    by simp
  have a: "isAllowed a_pdf" by code_simp
  show ?thesis
    using queue_no_duplicates
            [OF h, of "[a_pdf, b_xlsx, a_pdf]" "''a.pdf''" 100 "[]" a_pdf] h k a
    by simp
qed

section \<open>The claims about the batch upload controller\<close>

text \<open>
  C1. A batch over a non-empty queue, with a document kind and a token, sends its upload
  requests one at a time: no upload request leaves while another is unsettled. The
  requests the intake sees are those of the queue, in the queue's order: a prefix of the
  queue when a call is rejected or an exception is thrown (the loop ends there), the
  whole queue otherwise.
\<close>

theorem batch_sequential_in_queue_order:
  assumes "files s \<noteq> []" and "docType s = Some dt" and "truthy (token s)"
    and "quiet onLogout"
  shows "one_at_a_time None (batch_trace net delay onLogout s)
       \<and> prefix (upload_requests (batch_trace net delay onLogout s))
                 (map (upload_request (token s) dt onLogout) (files s))
       \<and> (\<not> any_rejected (batch_trace net delay onLogout s) \<longrightarrow>
            upload_requests (batch_trace net delay onLogout s)
              = map (upload_request (token s) dt onLogout) (files s))"
  using batch_trace_shape [OF assms(2,3,1,4), of net delay]
    one_at_a_time_loop_events [of net delay onLogout "token s" dt "trace s" "files s"]
    upload_requests_loop_events_prefix [of net delay onLogout "token s" dt "trace s" "files s"]
    upload_requests_loop_events_all [of net delay onLogout "token s" dt "trace s" "files s"]
  by (auto simp: one_at_a_time_snoc_Alert upload_requests_snoc_Alert any_rejected_append)

theorem batch_sequential_in_queue_order_witness:
  "files batch0 \<noteq> [] \<and> docType batch0 = Some factura \<and> truthy (token batch0)
   \<and> quiet (Some handleLogout)
   \<and> \<not> any_rejected (batch_trace net_500_first 0 (Some handleLogout) batch0)
   \<and> one_at_a_time None (batch_trace net_500_first 0 (Some handleLogout) batch0)
   \<and> upload_requests (batch_trace net_500_first 0 (Some handleLogout) batch0)
       = [upload_request (Some ''tok'') factura (Some handleLogout) a_pdf,
          upload_request (Some ''tok'') factura (Some handleLogout) b_xlsx]"
proof -
  have f: "files batch0 = [a_pdf, b_xlsx]" and t: "token batch0 = Some ''tok''"
    and d: "docType batch0 = Some factura"
    by (simp_all add: batch0_def state0_def)
  have h: "files batch0 \<noteq> []" "truthy (token batch0)"
    by (simp_all add: f t truthy_def)
  have nr: "\<not> any_rejected (batch_trace net_500_first 0 (Some handleLogout) batch0)"
    by code_simp
  show ?thesis
    using batch_sequential_in_queue_order
            [OF h(1) d h(2) quiet_handleLogout, of net_500_first 0]
      h d nr quiet_handleLogout
    by (simp add: f t)
qed




text \<open>
  What the loop does about pacing after a success: with a positive delay, after every
  upload that got a success response the controller suspends for the delay before the
  next upload request.
\<close>

lemma sleeps_next_snoc_Alert:
  "sleeps_next d (es @ [Alert m]) = sleeps_next d es"
  by (induction d es rule: sleeps_next.induct) simp_all

lemma paced_after_success_snoc_Alert:
  "paced_after_success d (es @ [Alert m]) = paced_after_success d es"
  by (induction d es rule: paced_after_success.induct) (simp_all add: sleeps_next_snoc_Alert)

lemma paced_after_success_file_events:
  assumes "build_request upload_url (upload_options tok dt onLogout f) = Inr req"
    and "0 < delay"
  shows "paced_after_success delay (file_events delay onLogout tok dt f resp @ es)
           = paced_after_success delay es"
proof -
  obtain h mid where "url h = historico_url"
    and "file_events delay onLogout tok dt f resp
          = Fetch req # Resolved req resp # mid
            @ (if ok resp then Fetch h # (if delay > 0 then [Sleep delay] else [])
               else (case text_r resp of
                       Inl err \<Rightarrow> [Threw err]
                     | Inr t \<Rightarrow> [Alert (upload_failed_notice f t)]))"
    and "mid = [] \<or> mid = [Alert expired_notice, OnLogout]"
    using file_events_shape [OF assms(1)] by blast
  then show ?thesis
    using assms(2) by (auto simp: not_is_upload_historico split: sum.splits)
qed

lemma paced_after_success_loop_events:
  "0 < delay \<Longrightarrow> paced_after_success delay (loop_events net delay onLogout tok dt tr fs)"
proof (induction fs arbitrary: tr)
  case Nil
  show ?case by simp
next
  case (Cons f fs)
  show ?case
  proof (cases "build_request upload_url (upload_options tok dt onLogout f)")
    case (Inl err)
    then show ?thesis by simp
  next
    case (Inr req)
    show ?thesis
      using Inr Cons.IH [OF Cons.prems]
        paced_after_success_file_events [OF Inr Cons.prems, of _ "[]"]
      by (simp add: Let_def paced_after_success_file_events [OF Inr Cons.prems]
            split: sum.splits)
  qed
qed

lemma batch_paced_after_success:
  assumes "files s \<noteq> []" and "docType s = Some dt" and "truthy (token s)"
    and "quiet onLogout" and "0 < delay"
  shows "paced_after_success delay (batch_trace net delay onLogout s)"
  using batch_trace_shape [OF assms(2,3,1,4), of net delay]
    paced_after_success_loop_events [OF assms(5), of net onLogout "token s" dt "trace s" "files s"]
  by (auto simp: paced_after_success_snoc_Alert)

text \<open>
  C4. In a batch of two files with a delay of 1000 ms whose first upload gets status
  500, both files are requested and the controller suspends once, after the second
  upload: it does not suspend between the failed upload and the next request, while the
  pause after the success is there.
\<close>

theorem batch_pacing_skipped_after_failure:
  "map (\<lambda>rr. status (snd rr))
       (upload_responses (batch_trace net_500_first 1000 (Some handleLogout) batch0))
     = [500, 200]
   \<and> length (upload_requests (batch_trace net_500_first 1000 (Some handleLogout) batch0)) = 2
   \<and> count_list (batch_trace net_500_first 1000 (Some handleLogout) batch0) (Sleep 1000) = 1
   \<and> paced_after_success 1000 (batch_trace net_500_first 1000 (Some handleLogout) batch0)
   \<and> \<not> paced_after_each 1000 (batch_trace net_500_first 1000 (Some handleLogout) batch0)"
  by code_simp

text \<open>
  C5, as amended. After every upload of a batch that got a non-success response whose
  body could be read, the alert \<open>Fallo subiendo <name>: <body>\<close>, with the name of that
  file and that body, is raised before the next upload request. Once requests leave at
  all, every response that is a success or has a readable body is followed by the
  request for the next file as long as files remain: the number of upload requests is
  the number of such responses plus one, up to the length of the queue. So unless a call
  is rejected or an exception is thrown, every file of the queue is requested, however
  many of the responses were failures.
\<close>

theorem batch_failure_isolated:
  assumes "files s \<noteq> []" and "docType s = Some dt" and "truthy (token s)"
    and "quiet onLogout"
  shows "failures_reported (batch_trace net delay onLogout s)
       \<and> (upload_requests (batch_trace net delay onLogout s) \<noteq> [] \<longrightarrow>
            length (upload_requests (batch_trace net delay onLogout s))
              = min (length (files s))
                  (Suc (length (filter continues
                          (upload_responses (batch_trace net delay onLogout s))))))
       \<and> prefix (upload_requests (batch_trace net delay onLogout s))
                 (map (upload_request (token s) dt onLogout) (files s))
       \<and> (\<not> any_rejected (batch_trace net delay onLogout s) \<longrightarrow>
            upload_requests (batch_trace net delay onLogout s)
              = map (upload_request (token s) dt onLogout) (files s))"
proof -
  define L where "L = loop_events net delay onLogout (token s) dt (trace s) (files s)"
  have shape: "batch_trace net delay onLogout s = L
                 \<or> (\<exists>m. batch_trace net delay onLogout s = L @ [Alert m])"
    and rej: "any_rejected (batch_trace net delay onLogout s) = any_rejected L"
    using batch_trace_shape [OF assms(2,3,1,4), of net delay]
      any_rejected_batch_trace [OF assms(2,3,1,4), of net delay]
    by (auto simp: L_def)
  have rq: "upload_requests (batch_trace net delay onLogout s) = upload_requests L"
    and rs: "upload_responses (batch_trace net delay onLogout s) = upload_responses L"
    using shape by (auto simp: upload_requests_snoc_Alert upload_responses_snoc_Alert)
  have c1: "failures_reported (batch_trace net delay onLogout s)"
    using shape failures_reported_loop_events [of net delay onLogout "token s" dt "trace s" "files s"]
    by (auto simp: L_def failures_reported_snoc_Alert)
  have c2: "length (upload_requests L)
              = min (length (files s)) (Suc (length (filter continues (upload_responses L))))"
    if "upload_requests L \<noteq> []"
  proof (cases "build_headers (historico_options (token s) onLogout)")
    case (Inl err)
    then have "L = [Threw err]"
      using loop_events_unbuilt [OF Inl assms(1)] by (simp add: L_def)
    then show ?thesis using that by simp
  next
    case (Inr hs)
    then show ?thesis
      using upload_requests_loop_events_length [OF Inr] by (simp add: L_def)
  qed
  have c3: "prefix (upload_requests L) (map (upload_request (token s) dt onLogout) (files s))"
    unfolding L_def by (rule upload_requests_loop_events_prefix)
  have c4: "upload_requests L = map (upload_request (token s) dt onLogout) (files s)"
    if "\<not> any_rejected L"
    using that unfolding L_def by (rule upload_requests_loop_events_all)
  show ?thesis
    using c1 c2 c3 c4 by (simp add: rq rs rej)
qed

theorem batch_failure_isolated_witness:
  "files batch0 \<noteq> [] \<and> docType batch0 = Some factura \<and> truthy (token batch0)
   \<and> quiet (Some handleLogout)
   \<and> \<not> ok resp_500 \<and> text_r resp_500 = Inr ''boom''
   \<and> map snd (upload_responses (batch_trace net_500_first 0 (Some handleLogout) batch0))
       = [resp_500, resp_ok]
   \<and> failures_reported (batch_trace net_500_first 0 (Some handleLogout) batch0)
   \<and> Alert ''Fallo subiendo a.pdf: boom''
       \<in> set (batch_trace net_500_first 0 (Some handleLogout) batch0)
   \<and> upload_requests (batch_trace net_500_first 0 (Some handleLogout) batch0)
       = [upload_request (Some ''tok'') factura (Some handleLogout) a_pdf,
          upload_request (Some ''tok'') factura (Some handleLogout) b_xlsx]"
proof -
  have f: "files batch0 = [a_pdf, b_xlsx]" and t: "token batch0 = Some ''tok''"
    and d: "docType batch0 = Some factura"
    by (simp_all add: batch0_def state0_def)
  have h: "files batch0 \<noteq> []" "truthy (token batch0)"
    by (simp_all add: f t truthy_def)
  have nr: "\<not> any_rejected (batch_trace net_500_first 0 (Some handleLogout) batch0)"
    by code_simp
  have al: "Alert ''Fallo subiendo a.pdf: boom''
              \<in> set (batch_trace net_500_first 0 (Some handleLogout) batch0)"
    by code_simp
  have rs: "map snd (upload_responses (batch_trace net_500_first 0 (Some handleLogout) batch0))
              = [resp_500, resp_ok]"
    by code_simp
  have r: "\<not> ok resp_500" "text_r resp_500 = Inr ''boom''"
    by (simp_all add: ok_def resp_500_def)
  show ?thesis
    using batch_failure_isolated
            [OF h(1) d h(2) quiet_handleLogout, of net_500_first 0]
      h d nr al rs r quiet_handleLogout
    by (simp add: f t)
qed

text \<open>
  C5 as stated fails: in a batch of two files whose first upload gets status 500 with a
  body that cannot be read, the exception ends the batch. The failure is not reported
  with the name of the file, and the second file is never requested.
\<close>

theorem batch_failure_unreadable_counterexample:
  "files batch0 = [a_pdf, b_xlsx]
   \<and> \<not> ok resp_500_unreadable
   \<and> batch_trace net_500_unreadable_first 0 (Some handleLogout) batch0
       = [Fetch (upload_request (Some ''tok'') factura (Some handleLogout) a_pdf),
          Resolved (upload_request (Some ''tok'') factura (Some handleLogout) a_pdf)
            resp_500_unreadable,
          Threw ''body stream error'',
          Alert ''Error subiendo archivos: body stream error'']
   \<and> files (confirmUpload net_500_unreadable_first 0 (Some handleLogout) batch0)
       = [a_pdf, b_xlsx]"
  by code_simp

section \<open>The claim about manual retry\<close>

text \<open>
  C6. The retry button is rendered only for a record whose status is \<open>FAILED\<close>, and a
  second click on the same record right after the first is not possible. But the guard
  is the single cell \<open>retryingId\<close>: with records 42 and 43 both failed, a click on 42
  followed by a click on 43 overwrites the cell, the button of 42 is enabled again while
  its retry is still pending, and a further click starts a second retry for record 42.
  Likewise, when the retry of 42 settles first, the cell is reset and the button of 43 is
  enabled while the retry of 43 is still pending.
\<close>

theorem retry_guard_overwritten:
  "retry_offered op42
   \<and> ui_run (Some handleLogout) [ClickRetry op42, ClickRetry op42] ui0 = None
   \<and> map_option (in_flight ''42'')
        (ui_run (Some handleLogout) [ClickRetry op42, ClickRetry op43] ui0) = Some 1
   \<and> map_option (\<lambda>u. retry_disabled (ui_state u) op42)
        (ui_run (Some handleLogout) [ClickRetry op42, ClickRetry op43] ui0) = Some False
   \<and> map_option (in_flight ''42'')
        (ui_run (Some handleLogout) [ClickRetry op42, ClickRetry op43, ClickRetry op42] ui0)
       = Some 2
   \<and> map_option (\<lambda>u. (in_flight ''43'' u, retry_disabled (ui_state u) op43))
        (ui_run (Some handleLogout)
           [ClickRetry op42, ClickRetry op43, Settle 0 (Inr resp_ok)] ui0)
       = Some (1, False)"
  by code_simp

end
